theory Spec2Isabelle
  imports Complex_Main
begin

unbundle bit_operations_syntax

section \<open>The virtual texture tile manager of \<^verbatim>\<open>src/celengine/virtualtex.cpp\<close>\<close>

text \<open>
  The development embeds the functions of \<^verbatim>\<open>virtualtex.cpp\<close> as HOL functions.

  \<^item> The C++ \<^verbatim>\<open>int\<close> and \<^verbatim>\<open>unsigned int\<close> values are modelled by \<open>int\<close> and \<open>nat\<close>.
    Unsigned additions carry their reduction modulo \<open>2 ^ 32\<close>, and the conversion of an
    unsigned sum to \<^verbatim>\<open>int\<close> is \<open>to_int32\<close>. Shifts are \<open>push_bit\<close> and \<open>drop_bit\<close>;
    they agree with the C++ shifts as long as the shifted value fits the 32-bit type, which
    the theorems ensure by bounding the number of resolution levels (\<open>in_range\<close> below).
  \<^item> The \<^verbatim>\<open>float\<close> values of a tile descriptor are modelled by \<open>real\<close>. For a level
    difference below 24 every value involved (a power of two, an integer below \<open>2 ^ 24\<close>,
    their quotient) is represented exactly in single precision, so that no rounding occurs.
  \<^item> Objects created by \<^verbatim>\<open>new Tile()\<close> live in a store (\<open>tiles\<close>), addressed by natural
    numbers; a quadtree node holds the address of its tile.
  \<^item> An \<^verbatim>\<open>assert\<close> that fails is the error value \<open>AssertionFailed\<close>.
  \<^item> The file system, the image decoder and the texture name of an \<^verbatim>\<open>ImageTexture\<close> are
    external to the file; they are parameters, collected in the record \<open>env\<close>.
\<close>

subsection \<open>Machine integers\<close>

definition MaxResolutionLevels :: nat where
  "MaxResolutionLevels = 13"

definition u32 :: "nat \<Rightarrow> nat" where
  "u32 x = x mod 2 ^ 32"

definition to_int32 :: "int \<Rightarrow> int" where
  "to_int32 x = signed_take_bit 31 x"

definition isPow2 :: "int \<Rightarrow> bool" where
  "isPow2 x \<longleftrightarrow> x AND (x - 1) = 0"

subsection \<open>Paths and formatting\<close>

text \<open>
  A path is its string. \<open>path_append\<close> is \<^verbatim>\<open>operator/\<close> for POSIX paths: an absolute
  right operand replaces the left one, otherwise the operands are joined by a separator.
  \<open>fmt_d\<close> is \<^verbatim>\<open>{:d}\<close> of the formatting library for an unsigned argument.
\<close>

type_synonym path = string

definition is_relative :: "path \<Rightarrow> bool" where
  "is_relative p \<longleftrightarrow> (case p of [] \<Rightarrow> True | c # _ \<Rightarrow> c \<noteq> CHR ''/'')"

definition path_append :: "path \<Rightarrow> path \<Rightarrow> path" where
  "path_append p q =
     (if \<not> is_relative q then q
      else if p = [] \<or> last p = CHR ''/'' then p @ q
      else p @ ''/'' @ q)"

definition digit_char :: "nat \<Rightarrow> char" where
  "digit_char d = ''0123456789'' ! d"

function fmt_d :: "nat \<Rightarrow> string" where
  "fmt_d n = (if n < 10 then [digit_char n] else fmt_d (n div 10) @ [digit_char (n mod 10)])"
  by pat_completeness auto
termination
  by (relation "measure (\<lambda>n. n)") auto

declare fmt_d.simps [simp del]

subsection \<open>The C library's \<^verbatim>\<open>sscanf\<close>, for literal, white-space and \<^verbatim>\<open>%d\<close> directives\<close>

text \<open>
  \<open>sscanf inp fmt\<close> is the list of the integers assigned, in order; the value the C
  function returns is its length when a conversion was made (and 0 or \<^verbatim>\<open>EOF\<close>, both
  different from 2, otherwise). A white-space character of the format skips any white
  space of the input; \<^verbatim>\<open>%d\<close> skips white space, then reads an optional sign and a
  nonempty run of decimal digits; any other character must be the next input character.
  The scan stops at the first directive that fails. A numeral too large for an
  \<^verbatim>\<open>int\<close> is undefined in C; the model keeps its mathematical value.
\<close>

definition isspace :: "char \<Rightarrow> bool" where
  "isspace c \<longleftrightarrow> c \<in> set [CHR '' '', CHR 0x09, CHR 0x0A, CHR 0x0B, CHR 0x0C, CHR 0x0D]"

definition isdigit :: "char \<Rightarrow> bool" where
  "isdigit c \<longleftrightarrow> c \<in> set ''0123456789''"

definition digit_val :: "char \<Rightarrow> nat" where
  "digit_val c = of_char c - 48"

definition dec_val :: "string \<Rightarrow> nat" where
  "dec_val ds = foldl (\<lambda>a c. 10 * a + digit_val c) 0 ds"

definition scan_int :: "string \<Rightarrow> (int \<times> string) option" where
  "scan_int inp =
     (let (neg, s) =
            (case inp of
               [] \<Rightarrow> (False, [])
             | c # cs \<Rightarrow>
                 if c = CHR ''-'' then (True, cs)
                 else if c = CHR ''+'' then (False, cs)
                 else (False, inp));
          ds = takeWhile isdigit s
      in if ds = [] then None
         else Some (if neg then - int (dec_val ds) else int (dec_val ds), dropWhile isdigit s))"

fun sscanf :: "string \<Rightarrow> string \<Rightarrow> int list" where
  "sscanf inp [] = []"
| "sscanf inp (f # fs) =
     (if isspace f then sscanf (dropWhile isspace inp) fs
      else if f = CHR ''%'' then
        (case fs of
           [] \<Rightarrow> []
         | d # fs' \<Rightarrow>
             if d = CHR ''d'' then
               (case scan_int (dropWhile isspace inp) of
                  None \<Rightarrow> []
                | Some (k, rest) \<Rightarrow> k # sscanf rest fs')
             else [])
      else
        (case inp of
           [] \<Rightarrow> []
         | c # cs \<Rightarrow> if c = f then sscanf cs fs else []))"

subsection \<open>Data model\<close>

datatype error = AssertionFailed

record Image =
  getWidth :: int
  getHeight :: int
  isCompressed :: bool

datatype AddressMode = EdgeClamp

datatype MipMapMode = DefaultMipMaps | NoMipMaps

text \<open>The texture \<^verbatim>\<open>new ImageTexture(*img, EdgeClamp, mipMapMode)\<close> creates.\<close>

record ImageTexture =
  texImage :: Image
  addressMode :: AddressMode
  mipMapMode :: MipMapMode

text \<open>
  Modelled from the spec: the struct \<^verbatim>\<open>Tile\<close> of \<^verbatim>\<open>virtualtex.h\<close>, which is not among
  the sources: a pixel-buffer handle, absent until the tile is loaded, and a sticky
  load-failed flag; \<open>newTile\<close> below is \<^verbatim>\<open>new Tile()\<close>, the empty tile.
\<close>

record Tile =
  tex :: "ImageTexture option"
  loadFailed :: bool

text \<open>
  Modelled from the spec: the struct \<^verbatim>\<open>TileQuadtreeNode\<close> of \<^verbatim>\<open>virtualtex.h\<close>: an
  optional tile (here the address of the \<open>Tile\<close> in the store) and four optional
  children, \<^verbatim>\<open>children[0]\<close> to \<^verbatim>\<open>children[3]\<close>.
\<close>

datatype TileQuadtreeNode =
  Node (tile: "nat option")
       (child0: "TileQuadtreeNode option") (child1: "TileQuadtreeNode option")
       (child2: "TileQuadtreeNode option") (child3: "TileQuadtreeNode option")

definition newNode :: TileQuadtreeNode where
  "newNode = Node None None None None None"

fun children :: "TileQuadtreeNode \<Rightarrow> nat \<Rightarrow> TileQuadtreeNode option" where
  "children (Node t a b c d) i =
     (if i = 0 then a else if i = 1 then b else if i = 2 then c else d)"

fun set_children :: "TileQuadtreeNode \<Rightarrow> nat \<Rightarrow> TileQuadtreeNode option \<Rightarrow> TileQuadtreeNode" where
  "set_children (Node t a b c d) i x =
     (if i = 0 then Node t x b c d else if i = 1 then Node t a x c d
      else if i = 2 then Node t a b x d else Node t a b c x)"

fun set_tile :: "TileQuadtreeNode \<Rightarrow> nat option \<Rightarrow> TileQuadtreeNode" where
  "set_tile (Node t a b c d) x = Node x a b c d"

text \<open>
  Modelled from the spec: the two constructors of \<^verbatim>\<open>TextureTile\<close> (declared in
  \<^verbatim>\<open>texture.h\<close>, not among the sources) that \<^verbatim>\<open>getTile\<close> calls: \<open>TextureTile1 0\<close> is
  \<^verbatim>\<open>TextureTile(0)\<close>, the descriptor with the "no texture" identity, and
  \<open>TextureTile5 name texU texV texDU texDV\<close> is a texture name with its sub-rectangle.
\<close>

datatype TextureTile =
  TextureTile1 nat
| TextureTile5 nat real real real real

text \<open>
  The fields of \<^verbatim>\<open>VirtualTexture\<close>, followed by the store of the tiles (\<open>tiles\<close>, with
  \<open>nextTile\<close> the next free address) and by \<open>loadLog\<close>, the paths given to the decoder
  so far, in order.
\<close>

record VirtualTexture =
  tilePath :: path
  tileExt :: string
  tilePrefix :: string
  baseSplit :: nat
  tileSize :: nat
  ticks :: nat
  tilesRequested :: nat
  nResolutionLevels :: nat
  compressed :: bool
  tileTree :: "TileQuadtreeNode \<times> TileQuadtreeNode"
  tiles :: "nat \<Rightarrow> Tile"
  nextTile :: nat
  loadLog :: "path list"

record env =
  is_directory :: "path \<Rightarrow> bool"
  directory_iterator :: "path \<Rightarrow> string list"
  LoadImageFromFile :: "path \<Rightarrow> Image option"
  getName :: "ImageTexture \<Rightarrow> nat"

text \<open>\<^verbatim>\<open>tileTree[i]\<close>, for the index 0 or 1 that the range checks of the callers leave.\<close>

definition tileTree_at :: "VirtualTexture \<Rightarrow> nat \<Rightarrow> TileQuadtreeNode" where
  "tileTree_at s i = (if i = 0 then fst (tileTree s) else snd (tileTree s))"

definition tileTree_set :: "nat \<Rightarrow> TileQuadtreeNode \<Rightarrow> VirtualTexture \<Rightarrow> VirtualTexture" where
  "tileTree_set i node s =
     (if i = 0 then s\<lparr>tileTree := (node, snd (tileTree s))\<rparr>
      else s\<lparr>tileTree := (fst (tileTree s), node)\<rparr>)"

definition newTile :: "VirtualTexture \<Rightarrow> nat \<times> VirtualTexture" where
  "newTile s =
     (nextTile s,
      s\<lparr>tiles := (tiles s)(nextTile s := \<lparr>tex = None, loadFailed = False\<rparr>),
        nextTile := nextTile s + 1\<rparr>)"

text \<open>
  The directory of level \<open>i\<close>: \<^verbatim>\<open>tilePath / fmt::format("level{:d}", i)\<close>, as both
  \<^verbatim>\<open>populateTileTree\<close> (line 254) and \<^verbatim>\<open>loadTileTexture\<close> (lines 202-203) build it.
\<close>

definition level_dir :: "VirtualTexture \<Rightarrow> nat \<Rightarrow> path" where
  "level_dir s i = path_append (tilePath s) (''level'' @ fmt_d i)"

subsection \<open>The quadtree walks\<close>

text \<open>The child selector of lines 103-104 and 288-289, for the bit position \<open>k = lod - n - 1\<close>.\<close>

definition child_index :: "nat \<Rightarrow> nat \<Rightarrow> nat \<Rightarrow> nat" where
  "child_index k u v =
     (let mask = push_bit k (1::nat)
      in drop_bit k (push_bit 1 (v AND mask) OR (u AND mask)))"

text \<open>The loop of \<^verbatim>\<open>getTile\<close> (lines 101-115), from step \<open>n\<close> at \<open>node\<close>.\<close>

function getTile_loop ::
  "nat \<Rightarrow> nat \<Rightarrow> nat \<Rightarrow> nat \<Rightarrow> TileQuadtreeNode \<Rightarrow> nat option \<Rightarrow> nat \<Rightarrow> nat option \<times> nat" where
  "getTile_loop lod u v n node best tileLOD =
     (if n < lod then
        (case children node (child_index (lod - n - 1) u v) of
           None \<Rightarrow> (best, tileLOD)
         | Some node' \<Rightarrow>
             (case tile node' of
                Some t \<Rightarrow> getTile_loop lod u v (n + 1) node' (Some t) (n + 1)
              | None \<Rightarrow> getTile_loop lod u v (n + 1) node' best tileLOD))
      else (best, tileLOD))"
  by pat_completeness auto
termination
  by (relation "measure (\<lambda>(lod, u, v, n, node, best, tileLOD). lod - n)") auto

declare getTile_loop.simps [simp del]

text \<open>
  The loop of \<^verbatim>\<open>addTileToTree\<close> (lines 286-293) and the attachment of the tile (lines
  296-297). The C++ code updates the nodes in place; the function returns the updated node.
\<close>

function addTile_loop ::
  "nat \<Rightarrow> nat \<Rightarrow> nat \<Rightarrow> nat \<Rightarrow> nat \<Rightarrow> TileQuadtreeNode \<Rightarrow> TileQuadtreeNode" where
  "addTile_loop t lod u v i node =
     (if i < lod then
        (let child = child_index (lod - i - 1) u v;
             sub = (case children node child of None \<Rightarrow> newNode | Some c \<Rightarrow> c)
         in set_children node child (Some (addTile_loop t lod u v (i + 1) sub)))
      else if tile node = None then set_tile node (Some t) else node)"
  by pat_completeness auto
termination
  by (relation "measure (\<lambda>(t, lod, u, v, i, node). lod - i)") auto

declare addTile_loop.simps [simp del]

definition addTileToTree :: "nat \<Rightarrow> nat \<Rightarrow> nat \<Rightarrow> nat \<Rightarrow> VirtualTexture \<Rightarrow> VirtualTexture" where
  "addTileToTree t lod u v s =
     (let r = drop_bit lod u
      in tileTree_set r (addTile_loop t lod u v 0 (tileTree_at s r)) s)"

subsection \<open>Residency\<close>

definition loadTileTexture ::
  "env \<Rightarrow> nat \<Rightarrow> nat \<Rightarrow> nat \<Rightarrow> VirtualTexture \<Rightarrow> error + (ImageTexture option \<times> VirtualTexture)" where
  "loadTileTexture e lod0 u v s =
     (let lod = drop_bit (baseSplit s) lod0
      in if \<not> lod < MaxResolutionLevels then Inl AssertionFailed
         else
           let p = path_append (level_dir s lod)
                     (tilePrefix s @ fmt_d u @ ''_'' @ fmt_d v @ tileExt s);
               s1 = s\<lparr>loadLog := loadLog s @ [p]\<rparr>
           in (case LoadImageFromFile e p of
                 None \<Rightarrow> Inr (None, s1)
               | Some img \<Rightarrow>
                   let mode = (if lod = 0 then DefaultMipMaps else NoMipMaps);
                       tx = (if isPow2 (getWidth img) \<and> isPow2 (getHeight img)
                             then Some \<lparr>texImage = img, addressMode = EdgeClamp, mipMapMode = mode\<rparr>
                             else None)
                   in Inr (tx, s1\<lparr>compressed := isCompressed img\<rparr>)))"

definition makeResident ::
  "env \<Rightarrow> nat \<Rightarrow> nat \<Rightarrow> nat \<Rightarrow> nat \<Rightarrow> VirtualTexture \<Rightarrow> error + VirtualTexture" where
  "makeResident e t lod u v s =
     (if tex (tiles s t) = None \<and> \<not> loadFailed (tiles s t) then
        (case loadTileTexture e lod u v s of
           Inl err \<Rightarrow> Inl err
         | Inr (tx, s1) \<Rightarrow>
             let s2 = s1\<lparr>tiles := (tiles s1)(t := (tiles s1 t)\<lparr>tex := tx\<rparr>)\<rparr>
             in if tx = None
                then Inr (s2\<lparr>tiles := (tiles s2)(t := (tiles s2 t)\<lparr>loadFailed := True\<rparr>)\<rparr>)
                else Inr s2)
      else Inr s)"

subsection \<open>\<^verbatim>\<open>getTile\<close> and the queries\<close>

text \<open>
  Lines 97-115 of \<^verbatim>\<open>getTile\<close>, the best-match walk for the absolute level \<open>lod\<close>: the
  tile remembered last and the depth it was found at.
\<close>

definition findBestMatch :: "VirtualTexture \<Rightarrow> nat \<Rightarrow> nat \<Rightarrow> nat \<Rightarrow> nat option \<times> nat" where
  "findBestMatch s lod u v =
     (let node = tileTree_at s (drop_bit lod u)
      in getTile_loop lod u v 0 node (tile node) 0)"

definition getTile ::
  "env \<Rightarrow> int \<Rightarrow> int \<Rightarrow> int \<Rightarrow> VirtualTexture \<Rightarrow> error + (TextureTile \<times> VirtualTexture)" where
  "getTile e lod0 u v s0 =
     (let s = s0\<lparr>tilesRequested := u32 (tilesRequested s0 + 1)\<rparr>;
          lod = to_int32 (lod0 + int (baseSplit s))
      in if lod < 0 \<or> nat lod \<ge> nResolutionLevels s \<or>
            u < 0 \<or> u \<ge> push_bit (nat lod) 2 \<or>
            v < 0 \<or> v \<ge> push_bit (nat lod) 1
         then Inr (TextureTile1 0, s)
         else
           let (best, tileLOD) = findBestMatch s (nat lod) (nat u) (nat v)
           in (case best of
                 None \<Rightarrow> Inr (TextureTile1 0, s)
               | Some t \<Rightarrow>
                   let tileU = drop_bit (nat lod - tileLOD) (nat u);
                       tileV = drop_bit (nat lod - tileLOD) (nat v)
                   in (case makeResident e t tileLOD tileU tileV s of
                         Inl err \<Rightarrow> Inl err
                       | Inr s' \<Rightarrow>
                           (case tex (tiles s' t) of
                              None \<Rightarrow> Inr (TextureTile1 0, s')
                            | Some tx \<Rightarrow>
                                let lodDiff = nat lod - tileLOD;
                                    texDU = 1 / real (push_bit lodDiff (1::nat));
                                    texDV = texDU;
                                    texU = real (nat u AND (push_bit lodDiff 1 - 1)) * texDU;
                                    texV = real (nat v AND (push_bit lodDiff 1 - 1)) * texDV
                                in Inr (TextureTile5 (getName e tx) texU texV texDU texDV, s')))))"

definition getLODCount :: "VirtualTexture \<Rightarrow> int" where
  "getLODCount s = to_int32 (int (nResolutionLevels s) - int (baseSplit s))"

text \<open>The shift count \<^verbatim>\<open>lod + baseSplit\<close> of the two tile counts is an unsigned sum.\<close>

definition getUTileCount :: "VirtualTexture \<Rightarrow> int \<Rightarrow> int" where
  "getUTileCount s lod = push_bit (nat ((lod + int (baseSplit s)) mod 2 ^ 32)) 2"

definition getVTileCount :: "VirtualTexture \<Rightarrow> int \<Rightarrow> int" where
  "getVTileCount s lod = push_bit (nat ((lod + int (baseSplit s)) mod 2 ^ 32)) 1"

definition beginUsage :: "VirtualTexture \<Rightarrow> VirtualTexture" where
  "beginUsage s = s\<lparr>ticks := u32 (ticks s + 1), tilesRequested := 0\<rparr>"

definition endUsage :: "VirtualTexture \<Rightarrow> VirtualTexture" where
  "endUsage s = s"

subsection \<open>The catalog scan, the constructor and the factory\<close>

text \<open>
  The body of the inner loop of \<^verbatim>\<open>populateTileTree\<close> (lines 264-273) for one directory
  entry with file name \<open>name\<close>: \<^verbatim>\<open>sscanf(...) == 2\<close> is a list of two assigned values.
\<close>

definition scanEntry :: "string \<Rightarrow> nat \<Rightarrow> string \<Rightarrow> VirtualTexture \<Rightarrow> VirtualTexture" where
  "scanEntry pattern maxLevel name s =
     (let uLimit = push_bit maxLevel (2::int);
          vLimit = push_bit maxLevel (1::int)
      in (case sscanf name pattern of
            [u, v] \<Rightarrow>
              if u \<ge> 0 \<and> v \<ge> 0 \<and> u < uLimit \<and> v < vLimit then
                (let (t, s') = newTile s in addTileToTree t maxLevel (nat u) (nat v) s')
              else s
          | _ \<Rightarrow> s))"

text \<open>The inner loop (lines 262-274) over the entries of one directory, by file name.\<close>

definition scanDir :: "string \<Rightarrow> nat \<Rightarrow> string list \<Rightarrow> VirtualTexture \<Rightarrow> VirtualTexture" where
  "scanDir pattern maxLevel names s =
     foldl (\<lambda>s name. scanEntry pattern maxLevel name s) s names"

function populate_loop ::
  "env \<Rightarrow> string \<Rightarrow> nat \<Rightarrow> nat \<Rightarrow> VirtualTexture \<Rightarrow> nat \<times> VirtualTexture" where
  "populate_loop e pattern i maxLevel s =
     (if i < MaxResolutionLevels then
        (let p = level_dir s i
         in if is_directory e p then
              (let maxLevel' = u32 (i + baseSplit s);
                   s' = scanDir pattern maxLevel' (directory_iterator e p) s
               in populate_loop e pattern (i + 1) maxLevel' s')
            else populate_loop e pattern (i + 1) maxLevel s)
      else (maxLevel, s))"
  by pat_completeness auto
termination
  by (relation "measure (\<lambda>(e, pattern, i, maxLevel, s). MaxResolutionLevels - i)") auto

declare populate_loop.simps [simp del]

definition populateTileTree :: "env \<Rightarrow> VirtualTexture \<Rightarrow> VirtualTexture" where
  "populateTileTree e s =
     (let pattern = (if CHR ''%'' \<notin> set (tilePrefix s) then tilePrefix s @ ''%d_%d.'' else []);
          (maxLevel, s') = populate_loop e pattern 0 0 s
      in s'\<lparr>nResolutionLevels := u32 (maxLevel + 1)\<rparr>)"

text \<open>
  The constructor: the initialiser list with the two empty roots and the tile extension
  (lines 65-76), the assertion, and the scan. \<open>tilesRequested\<close> and \<open>compressed\<close> are not
  set by the initialiser list; they start at 0 and \<open>False\<close> here, and no theorem below
  depends on that. The file-type query after the scan changes no field of the model.
\<close>

definition VirtualTexture_init ::
  "path \<Rightarrow> nat \<Rightarrow> nat \<Rightarrow> string \<Rightarrow> string \<Rightarrow> VirtualTexture" where
  "VirtualTexture_init tilePath' baseSplit' tileSize' tilePrefix' tileType' =
     \<lparr>tilePath = tilePath', tileExt = ''.'' @ tileType', tilePrefix = tilePrefix',
      baseSplit = baseSplit', tileSize = tileSize', ticks = 0, tilesRequested = 0,
      nResolutionLevels = 0, compressed = False,
      tileTree = (newNode, newNode),
      tiles = (\<lambda>_. \<lparr>tex = None, loadFailed = False\<rparr>), nextTile = 0, loadLog = []\<rparr>"

definition VirtualTexture_new ::
  "env \<Rightarrow> path \<Rightarrow> nat \<Rightarrow> nat \<Rightarrow> string \<Rightarrow> string \<Rightarrow> error + VirtualTexture" where
  "VirtualTexture_new e tilePath' baseSplit' tileSize' tilePrefix' tileType' =
     (let s = VirtualTexture_init tilePath' baseSplit' tileSize' tilePrefix' tileType'
      in if \<not> (tileSize s \<noteq> 0 \<and> isPow2 (int (tileSize s))) then Inl AssertionFailed
         else Inr (populateTileTree e s))"



subsection \<open>Notions the properties are stated with\<close>

text \<open>
  A node is addressed by the path of child indices leading to it from a root: \<open>follow\<close>
  walks a path, \<open>tile_at\<close> reads the tile at its end. \<open>addr_path lod u v\<close> lists the
  child indices that both walks compute for the tile address \<open>(lod, u, v)\<close>, and
  \<open>tileAt s lod u v\<close> is the tile attached to the node of that address, if any.
\<close>

fun follow :: "TileQuadtreeNode \<Rightarrow> nat list \<Rightarrow> TileQuadtreeNode option" where
  "follow node [] = Some node"
| "follow node (c # cs) =
     (case children node c of None \<Rightarrow> None | Some node' \<Rightarrow> follow node' cs)"

definition tile_at :: "TileQuadtreeNode \<Rightarrow> nat list \<Rightarrow> nat option" where
  "tile_at node p = (case follow node p of None \<Rightarrow> None | Some node' \<Rightarrow> tile node')"

definition addr_path :: "nat \<Rightarrow> nat \<Rightarrow> nat \<Rightarrow> nat list" where
  "addr_path lod u v = map (\<lambda>n. child_index (lod - n - 1) u v) [0..<lod]"

definition tileAt :: "VirtualTexture \<Rightarrow> nat \<Rightarrow> nat \<Rightarrow> nat \<Rightarrow> nat option" where
  "tileAt s lod u v = tile_at (tileTree_at s (drop_bit lod u)) (addr_path lod u v)"

text \<open>The coordinate bounds of a level: the grid is \<open>2 ^ (lod + 1)\<close> wide and \<open>2 ^ lod\<close> tall.\<close>

definition valid_addr :: "nat \<Rightarrow> nat \<Rightarrow> nat \<Rightarrow> bool" where
  "valid_addr lod u v \<longleftrightarrow> u < 2 ^ (lod + 1) \<and> v < 2 ^ lod"

text \<open>
  The address a directory entry stands for at level \<open>maxLevel\<close>: the two integers that
  \<^verbatim>\<open>sscanf\<close> assigns from its file name, when both are assigned, neither is negative
  and they lie inside the bounds of the level.
\<close>

definition entry_addr :: "string \<Rightarrow> nat \<Rightarrow> string \<Rightarrow> (nat \<times> nat) option" where
  "entry_addr pattern maxLevel name =
     (case sscanf name pattern of
        [u, v] \<Rightarrow> if 0 \<le> u \<and> 0 \<le> v \<and> valid_addr maxLevel (nat u) (nat v)
                  then Some (nat u, nat v) else None
      | _ \<Rightarrow> None)"

text \<open>The ancestor at level \<open>k\<close> of the address \<open>(lod, u, v)\<close> has these coordinates.\<close>

definition ancestor :: "nat \<Rightarrow> nat \<Rightarrow> nat \<Rightarrow> nat" where
  "ancestor lod k x = drop_bit (lod - k) x"

text \<open>The two loops, as recursions over the path that is left.\<close>

fun best_on_path ::
  "TileQuadtreeNode \<Rightarrow> nat list \<Rightarrow> nat \<Rightarrow> nat option \<times> nat \<Rightarrow> nat option \<times> nat" where
  "best_on_path node [] d acc = acc"
| "best_on_path node (c # cs) d acc =
     (case children node c of
        None \<Rightarrow> acc
      | Some node' \<Rightarrow>
          best_on_path node' cs (d + 1)
            (case tile node' of Some t \<Rightarrow> (Some t, d + 1) | None \<Rightarrow> acc))"

fun ins :: "TileQuadtreeNode \<Rightarrow> nat list \<Rightarrow> nat \<Rightarrow> TileQuadtreeNode" where
  "ins node [] t = (if tile node = None then set_tile node (Some t) else node)"
| "ins node (c # cs) t =
     set_children node c
       (Some (ins (case children node c of None \<Rightarrow> newNode | Some n \<Rightarrow> n) cs t))"

text \<open>The tiles attached exactly \<open>d\<close> levels below a node.\<close>

fun tiles_at_depth :: "nat \<Rightarrow> TileQuadtreeNode \<Rightarrow> nat list" where
  "tiles_at_depth 0 node = (case tile node of None \<Rightarrow> [] | Some t \<Rightarrow> [t])"
| "tiles_at_depth (Suc d) node =
     concat (map (\<lambda>i. case children node i of None \<Rightarrow> [] | Some c \<Rightarrow> tiles_at_depth d c)
               [0, 1, 2, 3])"

text \<open>
  The states in which the model is exact: every level is small enough for the shifts of
  \<^verbatim>\<open>getTile\<close> to stay within \<^verbatim>\<open>int\<close> and for the sub-rectangle to be computed without
  rounding, the base split fits an \<^verbatim>\<open>int\<close>, and the level that \<^verbatim>\<open>loadTileTexture\<close>
  computes passes its assertion.
\<close>

definition in_range :: "VirtualTexture \<Rightarrow> bool" where
  "in_range s \<longleftrightarrow>
     nResolutionLevels s \<le> 24 \<and> baseSplit s < 2 ^ 31 \<and>
     drop_bit (baseSplit s) (nResolutionLevels s - 1) < MaxResolutionLevels"

definition int32 :: "int \<Rightarrow> bool" where
  "int32 x \<longleftrightarrow> - (2 ^ 31) \<le> x \<and> x < 2 ^ 31"

text \<open>The three states of a tile.\<close>

definition tile_empty :: "Tile \<Rightarrow> bool" where
  "tile_empty x \<longleftrightarrow> tex x = None \<and> \<not> loadFailed x"

definition tile_loaded :: "Tile \<Rightarrow> bool" where
  "tile_loaded x \<longleftrightarrow> tex x \<noteq> None \<and> \<not> loadFailed x"

definition tile_failed :: "Tile \<Rightarrow> bool" where
  "tile_failed x \<longleftrightarrow> tex x = None \<and> loadFailed x"

text \<open>A sequence of calls of the public operations, each \<^verbatim>\<open>getTile\<close> with its environment.\<close>

datatype call = GetTile env int int int | BeginUsage | EndUsage

fun run :: "call list \<Rightarrow> VirtualTexture \<Rightarrow> error + VirtualTexture" where
  "run [] s = Inr s"
| "run (GetTile e lod u v # cs) s =
     (case getTile e lod u v s of Inl err \<Rightarrow> Inl err | Inr (d, s') \<Rightarrow> run cs s')"
| "run (BeginUsage # cs) s = run cs (beginUsage s)"
| "run (EndUsage # cs) s = run cs (endUsage s)"

text \<open>The state after the request counter of \<^verbatim>\<open>getTile\<close> (line 86) has been incremented.\<close>

definition requested :: "VirtualTexture \<Rightarrow> VirtualTexture" where
  "requested s = s\<lparr>tilesRequested := u32 (tilesRequested s + 1)\<rparr>"

text \<open>A sequence of insertions, each a tile with its address.\<close>

definition addTiles :: "(nat \<times> nat \<times> nat \<times> nat) list \<Rightarrow> VirtualTexture \<Rightarrow> VirtualTexture" where
  "addTiles xs s = foldl (\<lambda>s (t, lod, u, v). addTileToTree t lod u v s) s xs"


text \<open>The format of lines 248-250: empty when the prefix holds a percent sign.\<close>

definition scan_pattern :: "string \<Rightarrow> string" where
  "scan_pattern prefix = (if CHR ''%'' \<notin> set prefix then prefix @ ''%d_%d.'' else [])"


subsection \<open>Example inputs\<close>

text \<open>
  \<open>envA\<close> is a file system with the directories \<^verbatim>\<open>root/level3\<close>, holding the one tile
  \<^verbatim>\<open>tx_5_2.dds\<close>, and \<^verbatim>\<open>root/level4\<close>, empty; every image decodes to 64 by 64 pixels.
  \<open>sA\<close> is the manager the constructor builds there with base split 0, and \<open>sE\<close> is a
  manager of five levels with no tile.
\<close>

definition envA :: env where
  "envA = \<lparr>is_directory = (\<lambda>p. p = ''root/level3'' \<or> p = ''root/level4''),
           directory_iterator = (\<lambda>p. if p = ''root/level3'' then [''tx_5_2.dds''] else []),
           LoadImageFromFile = (\<lambda>p. Some \<lparr>getWidth = 64, getHeight = 64, isCompressed = False\<rparr>),
           getName = (\<lambda>t. 7)\<rparr>"

definition sA :: VirtualTexture where
  "sA = projr (VirtualTexture_new envA ''root'' 0 64 ''tx_'' ''dds'')"

definition sE :: VirtualTexture where
  "sE = \<lparr>tilePath = ''root'', tileExt = ''.dds'', tilePrefix = ''tx_'',
          baseSplit = 0, tileSize = 64, ticks = 0, tilesRequested = 0,
          nResolutionLevels = 5, compressed = False,
          tileTree = (newNode, newNode),
          tiles = (\<lambda>_. \<lparr>tex = None, loadFailed = False\<rparr>), nextTile = 0, loadLog = []\<rparr>"

text \<open>\<open>envF\<close> is \<open>envA\<close> with a decoder that fails, and \<open>sF\<close> the state after a request in it.\<close>

definition envF :: env where
  "envF = envA\<lparr>LoadImageFromFile := (\<lambda>p. None)\<rparr>"

definition sF :: VirtualTexture where
  "sF = snd (projr (getTile envF 4 10 4 sA))"








definition envG :: env where
  "envG = \<lparr>is_directory = (\<lambda>p. p = ''root/level0'' \<or> p = ''root/level1'' \<or> p = ''root/level2''),
           directory_iterator = (\<lambda>p. if p = ''root/level2'' then [''tx_0_0.dds''] else []),
           LoadImageFromFile = (\<lambda>p. if p = ''root/level2/tx_0_0.dds''
                                  then Some \<lparr>getWidth = 64, getHeight = 64, isCompressed = False\<rparr>
                                  else None),
           getName = (\<lambda>t. 7)\<rparr>"

definition sG :: VirtualTexture where
  "sG = projr (VirtualTexture_new envG ''root'' 1 64 ''tx_'' ''dds'')"

section \<open>Properties\<close>

subsection \<open>Child indices and paths\<close>

lemma child_index_eq:
  "child_index k u v = 2 * of_bool (bit v k) + of_bool (bit u k)"
proof -
  have b: "bit (child_index k u v) n \<longleftrightarrow> (n = 1 \<and> bit v k) \<or> (n = 0 \<and> bit u k)" for n
    unfolding child_index_def Let_def bit_drop_bit_eq bit_or_iff bit_and_iff bit_push_bit_iff
    by (cases n) (auto simp add: bit_Suc_0_iff bit_1_iff)
  have "bit (2 * of_bool (bit v k) + of_bool (bit u k) :: nat) n \<longleftrightarrow> (n = 1 \<and> bit v k) \<or> (n = 0 \<and> bit u k)" for n
    by (cases "bit v k"; cases "bit u k"; cases n) (auto simp add: bit_simps bit_Suc bit_0)
  with b show ?thesis
    by (intro bit_eqI) simp
qed

lemma child_index_less: "child_index k u v < 4"
  by (simp add: child_index_eq)

lemma child_index_drop_bit:
  "child_index k (drop_bit m u) (drop_bit m v) = child_index (k + m) u v"
  by (simp add: child_index_eq bit_drop_bit_eq add.commute)

lemma child_index_inj:
  "child_index k u v = child_index k u' v' \<Longrightarrow> bit u k = bit u' k \<and> bit v k = bit v' k"
  by (cases "bit v k"; cases "bit u k"; cases "bit v' k"; cases "bit u' k") (simp_all add: child_index_eq)

lemma length_addr_path [simp]: "length (addr_path lod u v) = lod"
  by (simp add: addr_path_def)

lemma addr_path_nth: "n < lod \<Longrightarrow> addr_path lod u v ! n = child_index (lod - n - 1) u v"
  by (simp add: addr_path_def)

lemma drop_addr_path:
  "n < lod \<Longrightarrow> drop n (addr_path lod u v) = child_index (lod - n - 1) u v # drop (Suc n) (addr_path lod u v)"
  by (simp add: addr_path_nth flip: Cons_nth_drop_Suc)

lemma getTile_loop_path:
  "n \<le> lod \<Longrightarrow>
   getTile_loop lod u v n node best tileLOD = best_on_path node (drop n (addr_path lod u v)) n (best, tileLOD)"
proof (induction lod u v n node best tileLOD rule: getTile_loop.induct)
  case (1 lod u v n node best tileLOD)
  show ?case
  proof (cases "n < lod")
    case True
    then show ?thesis
      using 1
      by (subst getTile_loop.simps) (simp add: drop_addr_path split: option.splits)
  next
    case False
    with 1 show ?thesis
      by (subst getTile_loop.simps) simp
  qed
qed

lemma addTile_loop_path:
  "i \<le> lod \<Longrightarrow> addTile_loop t lod u v i node = ins node (drop i (addr_path lod u v)) t"
proof (induction t lod u v i node rule: addTile_loop.induct)
  case (1 t lod u v i node)
  show ?case
  proof (cases "i < lod")
    case True
    then show ?thesis
      using 1
      by (subst addTile_loop.simps) (simp add: drop_addr_path Let_def)
  next
    case False
    with 1 show ?thesis
      by (subst addTile_loop.simps) simp
  qed
qed

lemma children_set_children_same [simp]:
  "children (set_children node c x) c = x"
  by (cases node) simp

lemma children_set_children_other:
  "c < 4 \<Longrightarrow> c' < 4 \<Longrightarrow> c' \<noteq> c \<Longrightarrow> children (set_children node c x) c' = children node c'"
  by (cases node) auto

lemma tile_set_children [simp]: "tile (set_children node c x) = tile node"
  by (cases node) simp

lemma tile_set_tile [simp]: "tile (set_tile node x) = x"
  by (cases node) simp

lemma children_set_tile [simp]: "children (set_tile node x) c = children node c"
  by (cases node) simp

lemma children_newNode [simp]: "children newNode c = None"
  by (simp add: newNode_def)

lemma tile_newNode [simp]: "tile newNode = None"
  by (simp add: newNode_def)

lemma tile_at_Nil [simp]: "tile_at node [] = tile node"
  by (simp add: tile_at_def)

lemma tile_at_Cons:
  "tile_at node (c # cs) = (case children node c of None \<Rightarrow> None | Some node' \<Rightarrow> tile_at node' cs)"
  by (simp add: tile_at_def split: option.splits)

lemma tile_at_newNode [simp]: "tile_at newNode p = None"
  by (cases p) (simp_all add: tile_at_Cons)

text \<open>Insertion attaches the tile at its path, unless a tile is there, and changes no other path.\<close>

lemma tile_at_ins:
  "\<forall>c \<in> set p. c < 4 \<Longrightarrow> \<forall>c \<in> set q. c < 4 \<Longrightarrow>
   tile_at (ins node p t) q =
     (if q = p then (case tile_at node p of None \<Rightarrow> Some t | Some t' \<Rightarrow> Some t') else tile_at node q)"
proof (induction p arbitrary: node q)
  case Nil
  then show ?case
    by (cases q) (auto simp add: tile_at_Cons split: option.splits)
next
  case (Cons c cs)
  show ?case
  proof (cases q)
    case Nil
    then show ?thesis by simp
  next
    case q: (Cons c' cs')
    show ?thesis
    proof (cases "c' = c")
      case True
      with Cons.prems q have "\<forall>x \<in> set cs. x < 4" "\<forall>x \<in> set cs'. x < 4" by simp_all
      from Cons.IH [OF this] show ?thesis
        using True q by (simp add: tile_at_Cons split: option.splits)
    next
      case False
      with Cons.prems q have "c < 4" "c' < 4" by simp_all
      with False show ?thesis
        using q by (simp add: tile_at_Cons children_set_children_other)
    qed
  qed
qed

text \<open>The walk returns the deepest tile on the path, counted from the depth it starts at.\<close>

lemma best_on_path_none:
  "\<forall>j. 0 < j \<and> j \<le> length p \<longrightarrow> tile_at node (take j p) = None \<Longrightarrow>
   best_on_path node p d acc = acc"
proof (induction p arbitrary: node d)
  case Nil
  then show ?case by simp
next
  case (Cons c cs)
  show ?case
  proof (cases "children node c")
    case None
    then show ?thesis by simp
  next
    case (Some node')
    have "tile_at node (take (Suc 0) (c # cs)) = None"
      using Cons.prems by (intro Cons.prems [rule_format]) simp
    with Some have t: "tile node' = None"
      by (simp add: tile_at_Cons)
    have "tile_at node' (take j cs) = None" if "0 < j \<and> j \<le> length cs" for j
    proof -
      from that have "tile_at node (take (Suc j) (c # cs)) = None"
        by (intro Cons.prems [rule_format]) simp
      with Some show ?thesis by (simp add: tile_at_Cons)
    qed
    then have "best_on_path node' cs (d + 1) acc = acc"
      by (intro Cons.IH) blast
    with Some t show ?thesis by simp
  qed
qed

lemma best_on_path_deepest:
  assumes "0 < k" "k \<le> length p" "tile_at node (take k p) = Some t"
    and "\<forall>j. k < j \<and> j \<le> length p \<longrightarrow> tile_at node (take j p) = None"
  shows "best_on_path node p d acc = (Some t, d + k)"
  using assms
proof (induction p arbitrary: node d acc k)
  case Nil
  then show ?case by simp
next
  case (Cons c cs)
  from Cons.prems(1) obtain k' where k: "k = Suc k'" by (cases k) auto
  from Cons.prems(3) k obtain node' where n': "children node c = Some node'"
    and t: "tile_at node' (take k' cs) = Some t"
    by (auto simp add: tile_at_Cons split: option.splits)
  have later: "tile_at node' (take j cs) = None" if "k' < j \<and> j \<le> length cs" for j
  proof -
    from that k have "tile_at node (take (Suc j) (c # cs)) = None"
      by (intro Cons.prems(4) [rule_format]) simp
    with n' show ?thesis by (simp add: tile_at_Cons)
  qed
  show ?case
  proof (cases "k' = 0")
    case True
    with t have tn: "tile node' = Some t" by simp
    have "best_on_path node' cs (d + 1) (Some t, d + 1) = (Some t, d + 1)"
      using later True by (intro best_on_path_none) simp
    then show ?thesis using n' tn k True by simp
  next
    case False
    have "best_on_path node' cs (d + 1) (case tile node' of Some t \<Rightarrow> (Some t, d + 1) | None \<Rightarrow> acc)
            = (Some t, d + 1 + k')"
      using False t later Cons.prems(2) k by (intro Cons.IH) auto
    with n' k show ?thesis by simp
  qed
qed

text \<open>What the walk returns is on the path: a tile at the depth returned, or the start value.\<close>

lemma best_on_path_sound:
  "best_on_path node p d acc = (r, k) \<Longrightarrow>
   (r, k) = acc \<or> (\<exists>j. 0 < j \<and> j \<le> length p \<and> k = d + j \<and> r \<noteq> None \<and> tile_at node (take j p) = r)"
proof (induction p arbitrary: node d acc)
  case Nil
  then show ?case by simp
next
  case (Cons c cs)
  show ?case
  proof (cases "children node c")
    case None
    with Cons.prems show ?thesis by simp
  next
    case (Some node')
    let ?acc = "case tile node' of Some t \<Rightarrow> (Some t, d + 1) | None \<Rightarrow> acc"
    from Cons.prems Some have "best_on_path node' cs (d + 1) ?acc = (r, k)" by simp
    from Cons.IH [OF this] consider "(r, k) = ?acc"
      | j where "0 < j" "j \<le> length cs" "k = d + 1 + j" "r \<noteq> None" "tile_at node' (take j cs) = r"
      by blast
    then show ?thesis
    proof cases
      case 1
      show ?thesis
      proof (cases "tile node'")
        case None
        with 1 show ?thesis by simp
      next
        case (Some t)
        with 1 \<open>children node c = Some node'\<close> have "0 < Suc 0 \<and> Suc 0 \<le> length (c # cs) \<and> k = d + Suc 0 \<and> r \<noteq> None \<and>
          tile_at node (take (Suc 0) (c # cs)) = r"
          by (simp add: tile_at_Cons)
        then show ?thesis by blast
      qed
    next
      case 2
      with Some have "0 < Suc j \<and> Suc j \<le> length (c # cs) \<and> k = d + Suc j \<and> r \<noteq> None \<and>
          tile_at node (take (Suc j) (c # cs)) = r"
        by (simp add: tile_at_Cons)
      then show ?thesis by blast
    qed
  qed
qed

lemma addr_path_less: "\<forall>c \<in> set (addr_path lod u v). c < 4"
  by (simp add: addr_path_def child_index_less)

lemma take_addr_path:
  assumes "k \<le> lod"
  shows "take k (addr_path lod u v) = addr_path k (drop_bit (lod - k) u) (drop_bit (lod - k) v)"
proof (rule nth_equalityI)
  show "length (take k (addr_path lod u v)) = length (addr_path k (drop_bit (lod - k) u) (drop_bit (lod - k) v))"
    using assms by simp
next
  fix n assume "n < length (take k (addr_path lod u v))"
  with assms have n: "n < k" by simp
  with assms have "k - n - 1 + (lod - k) = lod - n - 1" by simp
  with n assms show "take k (addr_path lod u v) ! n = addr_path k (drop_bit (lod - k) u) (drop_bit (lod - k) v) ! n"
    by (simp add: addr_path_nth child_index_drop_bit)
qed

lemma drop_bit_ancestor: "k \<le> lod \<Longrightarrow> drop_bit k (drop_bit (lod - k) (u::nat)) = drop_bit lod u"
  by (simp add: drop_bit_drop_bit)

lemma tileAt_ancestor:
  "k \<le> lod \<Longrightarrow>
   tileAt s k (drop_bit (lod - k) u) (drop_bit (lod - k) v) =
   tile_at (tileTree_at s (drop_bit lod u)) (take k (addr_path lod u v))"
  by (simp add: tileAt_def take_addr_path drop_bit_drop_bit)

lemma addr_path_inj:
  assumes "addr_path lod u v = addr_path lod u' v'" "drop_bit lod u = drop_bit lod u'"
    "v < 2 ^ lod" "v' < 2 ^ lod"
  shows "u = u' \<and> v = v'"
proof -
  have bits: "bit u k = bit u' k \<and> bit v k = bit v' k" if "k < lod" for k
  proof -
    from that have "addr_path lod u v ! (lod - k - 1) = child_index k u v"
      "addr_path lod u' v' ! (lod - k - 1) = child_index k u' v'"
      by (simp_all add: addr_path_nth)
    with assms(1) show ?thesis
      by (intro child_index_inj) simp
  qed
  have "u = u'"
  proof (rule bit_eqI)
    fix k
    show "bit u k = bit u' k"
    proof (cases "k < lod")
      case True
      with bits show ?thesis by simp
    next
      case False
      then have "bit u k = bit (drop_bit lod u) (k - lod)" "bit u' k = bit (drop_bit lod u') (k - lod)"
        by (simp_all add: bit_drop_bit_eq)
      with assms(2) show ?thesis by simp
    qed
  qed
  moreover have "v = v'"
  proof (rule bit_eqI)
    fix k
    show "bit v k = bit v' k"
    proof (cases "k < lod")
      case True
      with bits show ?thesis by simp
    next
      case False
      from assms(3,4) have "take_bit lod v = v" "take_bit lod v' = v'"
        by (simp_all add: take_bit_nat_eq_self)
      then have "bit v k = bit (take_bit lod v) k" "bit v' k = bit (take_bit lod v') k"
        by simp_all
      with False show ?thesis by (simp add: bit_take_bit_iff)
    qed
  qed
  ultimately show ?thesis ..
qed

lemma root_index_less: "valid_addr lod u v \<Longrightarrow> drop_bit lod u < 2"
  by (simp add: valid_addr_def drop_bit_eq_div less_mult_imp_div_less)

lemma tileTree_at_set:
  "r < 2 \<Longrightarrow> r' < 2 \<Longrightarrow>
   tileTree_at (tileTree_set r node s) r' = (if r' = r then node else tileTree_at s r')"
  by (auto simp add: tileTree_at_def tileTree_set_def)

lemma tileAt_addTileToTree:
  assumes "valid_addr lod u v" "valid_addr lod' u' v'"
  shows "tileAt (addTileToTree t lod u v s) lod' u' v' =
           (if lod' = lod \<and> u' = u \<and> v' = v
            then (case tileAt s lod u v of None \<Rightarrow> Some t | Some t' \<Rightarrow> Some t')
            else tileAt s lod' u' v')"
proof -
  let ?r = "drop_bit lod u" and ?r' = "drop_bit lod' u'"
  from assms have r: "?r < 2" "?r' < 2"
    by (simp_all add: root_index_less)
  show ?thesis
  proof (cases "?r' = ?r")
    case False
    with r show ?thesis
      by (auto simp add: tileAt_def addTileToTree_def Let_def tileTree_at_set)
  next
    case True
    have "addr_path lod' u' v' = addr_path lod u v \<longleftrightarrow> lod' = lod \<and> u' = u \<and> v' = v"
    proof
      assume eq: "addr_path lod' u' v' = addr_path lod u v"
      then have "length (addr_path lod' u' v') = length (addr_path lod u v)" by simp
      then have l: "lod' = lod" by simp
      with eq True assms have "u' = u \<and> v' = v"
        by (intro addr_path_inj [of lod]) (simp_all add: valid_addr_def)
      with l show "lod' = lod \<and> u' = u \<and> v' = v" by simp
    qed simp
    with True r show ?thesis
      by (simp add: tileAt_def addTileToTree_def Let_def tileTree_at_set addTile_loop_path
          tile_at_ins addr_path_less)
  qed
qed

subsection \<open>The best-match walk\<close>

lemma findBestMatch_path:
  "findBestMatch s lod u v =
     best_on_path (tileTree_at s (drop_bit lod u)) (addr_path lod u v) 0
       (tile (tileTree_at s (drop_bit lod u)), 0)"
  by (simp add: findBestMatch_def Let_def getTile_loop_path)

lemma tileAt_ancestor':
  "k \<le> lod \<Longrightarrow>
   tileAt s k (ancestor lod k u) (ancestor lod k v) =
   tile_at (tileTree_at s (drop_bit lod u)) (take k (addr_path lod u v))"
  by (simp add: ancestor_def tileAt_ancestor)

lemma findBestMatch_deepest:
  assumes "k \<le> lod" "tileAt s k (ancestor lod k u) (ancestor lod k v) = Some t"
    and "\<forall>j. k < j \<and> j \<le> lod \<longrightarrow> tileAt s j (ancestor lod j u) (ancestor lod j v) = None"
  shows "findBestMatch s lod u v = (Some t, k)"
proof -
  let ?node = "tileTree_at s (drop_bit lod u)" and ?p = "addr_path lod u v"
  from assms(1,2) have t: "tile_at ?node (take k ?p) = Some t"
    by (simp add: tileAt_ancestor')
  have later: "tile_at ?node (take j ?p) = None" if "k < j \<and> j \<le> length ?p" for j
    using that assms(3) [rule_format, of j] by (simp add: tileAt_ancestor')
  show ?thesis
  proof (cases "k = 0")
    case True
    with t have "tile ?node = Some t" by simp
    moreover have "best_on_path ?node ?p 0 (tile ?node, 0) = (tile ?node, 0)"
      using later True by (intro best_on_path_none) simp
    ultimately show ?thesis using True by (simp add: findBestMatch_path)
  next
    case False
    then have "best_on_path ?node ?p 0 (tile ?node, 0) = (Some t, 0 + k)"
      using assms(1) t later by (intro best_on_path_deepest) simp_all
    then show ?thesis by (simp add: findBestMatch_path)
  qed
qed

lemma findBestMatch_none:
  assumes "\<forall>j. j \<le> lod \<longrightarrow> tileAt s j (ancestor lod j u) (ancestor lod j v) = None"
  shows "findBestMatch s lod u v = (None, 0)"
proof -
  let ?node = "tileTree_at s (drop_bit lod u)" and ?p = "addr_path lod u v"
  have "tile_at ?node (take j ?p) = None" if "j \<le> length ?p" for j
    using that assms [rule_format, of j] by (simp add: tileAt_ancestor')
  from this [of 0] this have "tile ?node = None" "best_on_path ?node ?p 0 (tile ?node, 0) = (tile ?node, 0)"
    by (simp, intro best_on_path_none, simp)
  then show ?thesis by (simp add: findBestMatch_path)
qed

lemma findBestMatch_sound:
  assumes "findBestMatch s lod u v = (r, k)"
  shows "k \<le> lod \<and> r = tileAt s k (ancestor lod k u) (ancestor lod k v)"
proof -
  let ?node = "tileTree_at s (drop_bit lod u)" and ?p = "addr_path lod u v"
  from assms have "best_on_path ?node ?p 0 (tile ?node, 0) = (r, k)"
    by (simp add: findBestMatch_path)
  from best_on_path_sound [OF this] consider "r = tile ?node" "k = 0"
    | j where "j \<le> lod" "k = j" "tile_at ?node (take j ?p) = r"
    by auto
  then show ?thesis
  proof cases
    case 1
    then show ?thesis using tileAt_ancestor' [of 0 lod s u v] by simp
  next
    case 2
    then show ?thesis by (simp add: tileAt_ancestor')
  qed
qed

lemma findBestMatch_frame [simp]:
  "findBestMatch (s\<lparr>tilesRequested := x\<rparr>) = findBestMatch s"
  "findBestMatch (s\<lparr>tiles := y\<rparr>) = findBestMatch s"
  "findBestMatch (s\<lparr>loadLog := z\<rparr>) = findBestMatch s"
  "findBestMatch (s\<lparr>compressed := w\<rparr>) = findBestMatch s"
  "findBestMatch (s\<lparr>ticks := x\<rparr>) = findBestMatch s"
  by (simp_all add: findBestMatch_def tileTree_at_def fun_eq_iff)

subsection \<open>Residency\<close>

lemma to_int32_id: "int32 x \<Longrightarrow> to_int32 x = x"
  by (simp add: to_int32_def int32_def signed_take_bit_int_eq_self)

lemma drop_bit_mono_nat: "(a::nat) \<le> b \<Longrightarrow> drop_bit n a \<le> drop_bit n b"
  by (simp add: drop_bit_eq_div div_le_mono)

lemma assert_level:
  "in_range s \<Longrightarrow> k < nResolutionLevels s \<Longrightarrow> drop_bit (baseSplit s) k < MaxResolutionLevels"
proof -
  assume r: "in_range s" and k: "k < nResolutionLevels s"
  from k have "k \<le> nResolutionLevels s - 1" by simp
  then have "drop_bit (baseSplit s) k \<le> drop_bit (baseSplit s) (nResolutionLevels s - 1)"
    by (rule drop_bit_mono_nat)
  with r show ?thesis by (simp add: in_range_def)
qed

lemma makeResident_nonempty:
  "\<not> tile_empty (tiles s t) \<Longrightarrow> makeResident e t k u v s = Inr s"
  by (auto simp add: makeResident_def tile_empty_def)

lemma makeResident_empty:
  assumes "tile_empty (tiles s t)" "drop_bit (baseSplit s) k < MaxResolutionLevels"
  shows "\<exists>s' p tx. makeResident e t k u v s = Inr s' \<and>
           loadLog s' = loadLog s @ [p] \<and>
           tiles s' = (tiles s)(t := \<lparr>tex = tx, loadFailed = (tx = None)\<rparr>) \<and>
           tileTree s' = tileTree s \<and> baseSplit s' = baseSplit s \<and>
           nResolutionLevels s' = nResolutionLevels s \<and> tilesRequested s' = tilesRequested s \<and>
           ticks s' = ticks s"
  using assms
  by (cases "tiles s t")
    (auto simp add: makeResident_def loadTileTexture_def tile_empty_def Let_def fun_eq_iff
      split: option.splits)

lemma makeResident_total:
  assumes "in_range s" "k < nResolutionLevels s"
  shows "\<exists>s'. makeResident e t k u v s = Inr s'"
proof (cases "tile_empty (tiles s t)")
  case True
  with makeResident_empty [OF True assert_level [OF assms], of e u v] show ?thesis by blast
next
  case False
  then show ?thesis by (simp add: makeResident_nonempty)
qed

lemma makeResident_frame:
  assumes "makeResident e t k u v s = Inr s'"
  shows "tileTree s' = tileTree s \<and> baseSplit s' = baseSplit s \<and>
         nResolutionLevels s' = nResolutionLevels s \<and> tilesRequested s' = tilesRequested s \<and>
         ticks s' = ticks s \<and> (\<forall>t'. t' \<noteq> t \<longrightarrow> tiles s' t' = tiles s t')"
  using assms
  by (auto simp add: makeResident_def loadTileTexture_def Let_def
      split: if_splits option.splits sum.splits)

lemma makeResident_tile:
  assumes "makeResident e t k u v s = Inr s'"
  shows "(if tile_empty (tiles s t)
          then (tile_loaded (tiles s' t) \<or> tile_failed (tiles s' t)) \<and>
               length (loadLog s') = length (loadLog s) + 1
          else s' = s)"
  using assms
  by (auto simp add: makeResident_def loadTileTexture_def Let_def tile_empty_def tile_loaded_def
      tile_failed_def split: if_splits option.splits sum.splits)

subsection \<open>\<^verbatim>\<open>getTile\<close>\<close>

lemma to_int32_cases:
  assumes "- (2 ^ 31) \<le> x" "x < 2 ^ 32"
  shows "to_int32 x = x \<or> to_int32 x < 0"
proof (cases "x < 2 ^ 31")
  case True
  with assms show ?thesis by (simp add: to_int32_id int32_def)
next
  case False
  have "to_int32 x = (x + 2 ^ 31) mod 2 ^ 32 - 2 ^ 31"
    by (simp add: to_int32_def signed_take_bit_eq_take_bit_shift take_bit_eq_mod)
  also have "(x + 2 ^ 31) mod 2 ^ 32 = x + 2 ^ 31 - 2 ^ 32"
    using False assms by (intro int_mod_pos_eq [where q = 1]) simp_all
  finally show ?thesis using assms by simp
qed

lemma and_low_mask_nat: "(x::nat) AND (push_bit d 1 - 1) = x mod 2 ^ d"
proof -
  have "push_bit d (1::nat) - 1 = mask d"
    by (simp add: push_bit_eq_mult mask_eq_exp_minus_1)
  then show ?thesis
    by (simp add: take_bit_eq_mod flip: take_bit_eq_mask)
qed

lemma getTile_outside:
  assumes "in_range s" "int32 lod"
    and "lod + int (baseSplit s) < 0 \<or> lod + int (baseSplit s) \<ge> int (nResolutionLevels s) \<or>
         u < 0 \<or> u \<ge> 2 ^ (nat (lod + int (baseSplit s)) + 1) \<or>
         v < 0 \<or> v \<ge> 2 ^ nat (lod + int (baseSplit s))"
  shows "getTile e lod u v s = Inr (TextureTile1 0, requested s)"
proof -
  let ?x = "lod + int (baseSplit s)"
  from assms(1,2) have "- (2 ^ 31) \<le> ?x" "?x < 2 ^ 32"
    by (simp_all add: in_range_def int32_def)
  then consider "to_int32 ?x = ?x" | "to_int32 ?x < 0"
    using to_int32_cases by blast
  then show ?thesis
  proof cases
    case 1
    with assms(3) show ?thesis
      by (auto simp add: getTile_def Let_def requested_def push_bit_eq_mult)
  next
    case 2
    then show ?thesis
      by (simp add: getTile_def Let_def requested_def)
  qed
qed

lemma getTile_inside:
  assumes "0 \<le> lod + int (baseSplit s)" "lod + int (baseSplit s) < int (nResolutionLevels s)"
    "nResolutionLevels s \<le> 24"
    and "0 \<le> u" "0 \<le> v" "valid_addr (nat (lod + int (baseSplit s))) (nat u) (nat v)"
    and "findBestMatch s (nat (lod + int (baseSplit s))) (nat u) (nat v) = (best, k)"
  shows "getTile e lod u v s =
     (case best of
        None \<Rightarrow> Inr (TextureTile1 0, requested s)
      | Some t \<Rightarrow>
          (case makeResident e t k (ancestor (nat (lod + int (baseSplit s))) k (nat u))
                  (ancestor (nat (lod + int (baseSplit s))) k (nat v)) (requested s) of
             Inl err \<Rightarrow> Inl err
           | Inr s' \<Rightarrow>
               (case tex (tiles s' t) of
                  None \<Rightarrow> Inr (TextureTile1 0, s')
                | Some tx \<Rightarrow>
                    Inr (TextureTile5 (getName e tx)
                           (real (nat u mod 2 ^ (nat (lod + int (baseSplit s)) - k)) *
                              (1 / 2 ^ (nat (lod + int (baseSplit s)) - k)))
                           (real (nat v mod 2 ^ (nat (lod + int (baseSplit s)) - k)) *
                              (1 / 2 ^ (nat (lod + int (baseSplit s)) - k)))
                           (1 / 2 ^ (nat (lod + int (baseSplit s)) - k))
                           (1 / 2 ^ (nat (lod + int (baseSplit s)) - k)), s'))))"
proof -
  let ?x = "lod + int (baseSplit s)"
  from assms(1-3) have "int32 ?x" by (simp add: int32_def)
  then have x: "to_int32 ?x = ?x" by (rule to_int32_id)
  from assms(4-6) have uv: "u < 2 * 2 ^ nat ?x" "v < 2 ^ nat ?x"
    by (simp_all add: valid_addr_def nat_less_iff)
  have c: "\<not> (?x < 0 \<or> nResolutionLevels s \<le> nat ?x \<or> u < 0 \<or> push_bit (nat ?x) 2 \<le> u \<or>
              v < 0 \<or> push_bit (nat ?x) 1 \<le> v)"
    using assms(1,2,4,5) uv by (simp add: push_bit_eq_mult)
  have f: "findBestMatch (s\<lparr>tilesRequested := u32 (tilesRequested s + 1)\<rparr>) (nat ?x) (nat u) (nat v)
             = (best, k)"
    using assms(7) by simp
  have g: "getTile e lod u v s =
     (case best of
        None \<Rightarrow> Inr (TextureTile1 0, requested s)
      | Some t \<Rightarrow>
          (case makeResident e t k (drop_bit (nat ?x - k) (nat u)) (drop_bit (nat ?x - k) (nat v))
                  (requested s) of
             Inl err \<Rightarrow> Inl err
           | Inr s' \<Rightarrow>
               (case tex (tiles s' t) of
                  None \<Rightarrow> Inr (TextureTile1 0, s')
                | Some tx \<Rightarrow>
                    Inr (TextureTile5 (getName e tx)
                           (real (nat u AND (push_bit (nat ?x - k) 1 - 1)) *
                              (1 / real (push_bit (nat ?x - k) (1::nat))))
                           (real (nat v AND (push_bit (nat ?x - k) 1 - 1)) *
                              (1 / real (push_bit (nat ?x - k) (1::nat))))
                           (1 / real (push_bit (nat ?x - k) (1::nat)))
                           (1 / real (push_bit (nat ?x - k) (1::nat))), s'))))"
    using c f
    by (simp add: getTile_def Let_def x requested_def del: push_bit_of_1 push_bit_of_Suc_0
        cong: option.case_cong sum.case_cong)
  show ?thesis
    unfolding g and_low_mask_nat ancestor_def
    by (simp add: push_bit_eq_mult cong: option.case_cong sum.case_cong)
qed

lemma in_range_requested [simp]: "in_range (requested s) = in_range s"
  by (simp add: in_range_def requested_def)

lemma requested_fields [simp]:
  "nResolutionLevels (requested s) = nResolutionLevels s"
  "baseSplit (requested s) = baseSplit s"
  "tiles (requested s) = tiles s"
  "tileTree (requested s) = tileTree s"
  "loadLog (requested s) = loadLog s"
  by (simp_all add: requested_def)

text \<open>Inside the bounds, the request takes one of three courses.\<close>

lemma getTile_inside_cases:
  assumes "in_range s"
    and "0 \<le> lod + int (baseSplit s)" "lod + int (baseSplit s) < int (nResolutionLevels s)"
    and "0 \<le> u" "0 \<le> v" "valid_addr (nat (lod + int (baseSplit s))) (nat u) (nat v)"
  obtains
    (no_match) k where
      "findBestMatch s (nat (lod + int (baseSplit s))) (nat u) (nat v) = (None, k)"
      "getTile e lod u v s = Inr (TextureTile1 0, requested s)"
  | (not_resident) t k s' where
      "findBestMatch s (nat (lod + int (baseSplit s))) (nat u) (nat v) = (Some t, k)"
      "k \<le> nat (lod + int (baseSplit s))"
      "makeResident e t k (ancestor (nat (lod + int (baseSplit s))) k (nat u))
         (ancestor (nat (lod + int (baseSplit s))) k (nat v)) (requested s) = Inr s'"
      "tex (tiles s' t) = None"
      "getTile e lod u v s = Inr (TextureTile1 0, s')"
  | (resident) t k s' tx where
      "findBestMatch s (nat (lod + int (baseSplit s))) (nat u) (nat v) = (Some t, k)"
      "k \<le> nat (lod + int (baseSplit s))"
      "makeResident e t k (ancestor (nat (lod + int (baseSplit s))) k (nat u))
         (ancestor (nat (lod + int (baseSplit s))) k (nat v)) (requested s) = Inr s'"
      "tex (tiles s' t) = Some tx"
      "getTile e lod u v s =
         Inr (TextureTile5 (getName e tx)
                (real (nat u mod 2 ^ (nat (lod + int (baseSplit s)) - k)) *
                   (1 / 2 ^ (nat (lod + int (baseSplit s)) - k)))
                (real (nat v mod 2 ^ (nat (lod + int (baseSplit s)) - k)) *
                   (1 / 2 ^ (nat (lod + int (baseSplit s)) - k)))
                (1 / 2 ^ (nat (lod + int (baseSplit s)) - k))
                (1 / 2 ^ (nat (lod + int (baseSplit s)) - k)), s')"
proof -
  let ?a = "nat (lod + int (baseSplit s))"
  obtain best k where m: "findBestMatch s ?a (nat u) (nat v) = (best, k)"
    by (cases "findBestMatch s ?a (nat u) (nat v)")
  from assms(1) have L: "nResolutionLevels s \<le> 24"
    by (simp add: in_range_def)
  note g = getTile_inside [OF assms(2,3) L assms(4,5,6) m, of e]
  from findBestMatch_sound [OF m] have k: "k \<le> ?a" by simp
  show thesis
  proof (cases best)
    case None
    with m g no_match show ?thesis by simp
  next
    case (Some t)
    from k assms(2,3) have "k < nResolutionLevels (requested s)" by (simp add: nat_less_iff)
    with assms(1) obtain s' where
      r: "makeResident e t k (ancestor ?a k (nat u)) (ancestor ?a k (nat v)) (requested s) = Inr s'"
      using makeResident_total [of "requested s" k e t] by auto
    show ?thesis
    proof (cases "tex (tiles s' t)")
      case None
      with Some m g r k not_resident show ?thesis by simp
    next
      case tx: (Some tx)
      with Some m g r k resident show ?thesis by simp
    qed
  qed
qed

lemma outside_or_inside:
  fixes lod u v :: int and B L :: nat
  shows "(lod + int B < 0 \<or> lod + int B \<ge> int L \<or> u < 0 \<or> u \<ge> 2 ^ (nat (lod + int B) + 1) \<or>
          v < 0 \<or> v \<ge> 2 ^ nat (lod + int B)) \<or>
         (0 \<le> lod + int B \<and> lod + int B < int L \<and> 0 \<le> u \<and> 0 \<le> v \<and>
          valid_addr (nat (lod + int B)) (nat u) (nat v))"
  by (auto simp add: valid_addr_def nat_less_iff)


lemma subrect_bounds:
  fixes m d :: nat
  shows "0 \<le> real (m mod 2 ^ d) * (1 / 2 ^ d) \<and> real (m mod 2 ^ d) * (1 / 2 ^ d) + 1 / 2 ^ d \<le> 1"
proof -
  have "m mod 2 ^ d + 1 \<le> 2 ^ d"
    by (simp add: Suc_leI)
  then have "real (m mod 2 ^ d + 1) \<le> real (2 ^ d)"
    by (rule of_nat_mono)
  then have "(real (m mod 2 ^ d) + 1) / 2 ^ d \<le> 1"
    by simp
  then show ?thesis
    by (simp add: add_divide_distrib)
qed


lemma tileAt_addTileToTree_keeps:
  assumes "valid_addr lod u v" "valid_addr lod' u' v'" "tileAt s lod' u' v' = Some t'"
  shows "tileAt (addTileToTree t lod u v s) lod' u' v' = Some t'"
  using assms by (auto simp add: tileAt_addTileToTree)

lemma addTileToTree_fields [simp]:
  "nResolutionLevels (addTileToTree t lod u v s) = nResolutionLevels s"
  "baseSplit (addTileToTree t lod u v s) = baseSplit s"
  "tiles (addTileToTree t lod u v s) = tiles s"
  "nextTile (addTileToTree t lod u v s) = nextTile s"
  "loadLog (addTileToTree t lod u v s) = loadLog s"
  "tilePath (addTileToTree t lod u v s) = tilePath s"
  "tilePrefix (addTileToTree t lod u v s) = tilePrefix s"
  "tileExt (addTileToTree t lod u v s) = tileExt s"
  by (simp_all add: addTileToTree_def tileTree_set_def Let_def)

lemma tileAt_addTiles_keeps:
  assumes "\<forall>(t', l', u', v') \<in> set later. valid_addr l' u' v'" "valid_addr lod u v"
    "tileAt s lod u v = Some t"
  shows "tileAt (addTiles later s) lod u v = Some t"
  using assms
proof (induction later arbitrary: s)
  case Nil
  then show ?case by (simp add: addTiles_def)
next
  case (Cons x xs)
  obtain t' l' u' v' where x: "x = (t', l', u', v')" by (cases x)
  with Cons.prems have "tileAt (addTileToTree t' l' u' v' s) lod u v = Some t"
    by (intro tileAt_addTileToTree_keeps) simp_all
  with Cons.IH [of "addTileToTree t' l' u' v' s"] Cons.prems x show ?case
    by (simp add: addTiles_def)
qed

lemma findBestMatch_exact:
  assumes "tileAt s lod u v = Some t"
  shows "findBestMatch s lod u v = (Some t, lod)"
  using assms by (intro findBestMatch_deepest) (auto simp add: ancestor_def)


subsection \<open>Tiles change state at most once\<close>

lemma findBestMatch_tileTree:
  "tileTree s' = tileTree s \<Longrightarrow> findBestMatch s' = findBestMatch s"
  by (simp add: findBestMatch_def tileTree_at_def fun_eq_iff)

lemma makeResident_keeps:
  assumes "makeResident e t k a b y = Inr x"
  shows "tileTree x = tileTree y \<and> baseSplit x = baseSplit y \<and>
         nResolutionLevels x = nResolutionLevels y \<and>
         (\<forall>t'. \<not> tile_empty (tiles y t') \<longrightarrow> tiles x t' = tiles y t')"
  using makeResident_frame [OF assms] makeResident_tile [OF assms]
  by (cases "tile_empty (tiles y t)") (auto split: if_splits)

lemma getTile_frame:
  assumes "getTile e lod u v s = Inr (d, s')"
  shows "tileTree s' = tileTree s \<and> baseSplit s' = baseSplit s \<and>
         nResolutionLevels s' = nResolutionLevels s \<and>
         (\<forall>t. \<not> tile_empty (tiles s t) \<longrightarrow> tiles s' t = tiles s t)"
  using assms
  by (auto simp add: getTile_def Let_def split: if_splits prod.splits option.splits sum.splits
      dest!: makeResident_keeps)

lemma run_frame:
  "run cs s = Inr s' \<Longrightarrow>
   tileTree s' = tileTree s \<and> baseSplit s' = baseSplit s \<and>
   nResolutionLevels s' = nResolutionLevels s \<and>
   (\<forall>t. \<not> tile_empty (tiles s t) \<longrightarrow> tiles s' t = tiles s t)"
proof (induction cs s rule: run.induct)
  case (1 s)
  then show ?case by simp
next
  case (2 e lod u v cs s)
  from "2.prems" obtain d s1 where g: "getTile e lod u v s = Inr (d, s1)" and r: "run cs s1 = Inr s'"
    by (auto split: sum.splits)
  from getTile_frame [OF g] "2.IH" [OF g refl r] show ?case
    by (auto simp add: tile_empty_def)
next
  case (3 cs s)
  then show ?case by (simp add: beginUsage_def)
next
  case (4 cs s)
  then show ?case by (simp add: endUsage_def)
qed

lemma getTile_matched_nonempty:
  assumes "in_range s" "0 \<le> lod + int (baseSplit s)"
    "lod + int (baseSplit s) < int (nResolutionLevels s)"
    "0 \<le> u" "0 \<le> v" "valid_addr (nat (lod + int (baseSplit s))) (nat u) (nat v)"
    and "getTile e lod u v s = Inr (d, s')"
    and "findBestMatch s (nat (lod + int (baseSplit s))) (nat u) (nat v) = (Some t, k)"
  shows "\<not> tile_empty (tiles s' t)"
  using assms(1-6)
proof (cases rule: getTile_inside_cases [where e = e])
  case (no_match k')
  with assms(8) show ?thesis by simp
next
  case (not_resident t' k' s'')
  with assms(7,8) have r: "makeResident e t k (ancestor (nat (lod + int (baseSplit s))) k (nat u))
         (ancestor (nat (lod + int (baseSplit s))) k (nat v)) (requested s) = Inr s'"
    by simp
  from makeResident_tile [OF r] show ?thesis
    by (auto simp add: tile_empty_def tile_loaded_def tile_failed_def split: if_splits)
next
  case (resident t' k' s'' tx)
  with assms(7,8) show ?thesis
    by (simp add: tile_empty_def)
qed

lemma getTile_again:
  assumes "in_range s" "int32 lod"
    and "\<And>t k. findBestMatch s (nat (lod + int (baseSplit s))) (nat u) (nat v) = (Some t, k)
           \<Longrightarrow> \<not> tile_empty (tiles s t)"
  shows "\<exists>d. getTile e lod u v s = Inr (d, requested s)"
proof -
  from outside_or_inside [of lod "baseSplit s" "nResolutionLevels s" u v]
  show ?thesis
  proof
    assume "lod + int (baseSplit s) < 0 \<or> lod + int (baseSplit s) \<ge> int (nResolutionLevels s) \<or>
          u < 0 \<or> u \<ge> 2 ^ (nat (lod + int (baseSplit s)) + 1) \<or>
          v < 0 \<or> v \<ge> 2 ^ nat (lod + int (baseSplit s))"
    from getTile_outside [OF assms(1,2) this] show ?thesis by blast
  next
    assume "0 \<le> lod + int (baseSplit s) \<and> lod + int (baseSplit s) < int (nResolutionLevels s) \<and>
      0 \<le> u \<and> 0 \<le> v \<and> valid_addr (nat (lod + int (baseSplit s))) (nat u) (nat v)"
    then have i: "0 \<le> lod + int (baseSplit s)" "lod + int (baseSplit s) < int (nResolutionLevels s)"
      "0 \<le> u" "0 \<le> v" "valid_addr (nat (lod + int (baseSplit s))) (nat u) (nat v)"
      by simp_all
    from assms(1) i show ?thesis
    proof (cases rule: getTile_inside_cases [where e = e])
      case (no_match k)
      then show ?thesis by simp
    next
      case (not_resident t k s')
      from assms(3) [OF not_resident(1)] have "\<not> tile_empty (tiles (requested s) t)" by simp
      from makeResident_nonempty [OF this] not_resident(3,5) show ?thesis by simp
    next
      case (resident t k s' tx)
      from assms(3) [OF resident(1)] have "\<not> tile_empty (tiles (requested s) t)" by simp
      from makeResident_nonempty [OF this] resident(3,5) show ?thesis by simp
    qed
  qed
qed

lemma repeated_request:
  assumes "in_range s" "int32 lod" "getTile e lod u v s = Inr (d, s3)" "run cs s3 = Inr s4"
  shows "\<exists>d'. getTile e' lod u v s4 = Inr (d', requested s4)"
proof -
  from getTile_frame [OF assms(3)] run_frame [OF assms(4)]
  have same: "tileTree s4 = tileTree s" "baseSplit s4 = baseSplit s"
    "nResolutionLevels s4 = nResolutionLevels s"
    and keep: "\<And>t. \<not> tile_empty (tiles s3 t) \<Longrightarrow> tiles s4 t = tiles s3 t"
    by simp_all
  from same assms(1) have r4: "in_range s4"
    by (simp add: in_range_def)
  from outside_or_inside [of lod "baseSplit s" "nResolutionLevels s" u v]
  show ?thesis
  proof
    assume "lod + int (baseSplit s) < 0 \<or> lod + int (baseSplit s) \<ge> int (nResolutionLevels s) \<or>
          u < 0 \<or> u \<ge> 2 ^ (nat (lod + int (baseSplit s)) + 1) \<or>
          v < 0 \<or> v \<ge> 2 ^ nat (lod + int (baseSplit s))"
    with same have "lod + int (baseSplit s4) < 0 \<or> lod + int (baseSplit s4) \<ge> int (nResolutionLevels s4) \<or>
          u < 0 \<or> u \<ge> 2 ^ (nat (lod + int (baseSplit s4)) + 1) \<or>
          v < 0 \<or> v \<ge> 2 ^ nat (lod + int (baseSplit s4))"
      by simp
    from getTile_outside [OF r4 assms(2) this] show ?thesis by blast
  next
    assume "0 \<le> lod + int (baseSplit s) \<and> lod + int (baseSplit s) < int (nResolutionLevels s) \<and>
      0 \<le> u \<and> 0 \<le> v \<and> valid_addr (nat (lod + int (baseSplit s))) (nat u) (nat v)"
    then have i: "0 \<le> lod + int (baseSplit s)" "lod + int (baseSplit s) < int (nResolutionLevels s)"
      "0 \<le> u" "0 \<le> v" "valid_addr (nat (lod + int (baseSplit s))) (nat u) (nat v)"
      by simp_all
    have ne: "\<not> tile_empty (tiles s4 t)"
      if "findBestMatch s4 (nat (lod + int (baseSplit s4))) (nat u) (nat v) = (Some t, k)" for t k
    proof -
      from that same have "findBestMatch s (nat (lod + int (baseSplit s))) (nat u) (nat v) = (Some t, k)"
        by (simp add: findBestMatch_tileTree [of s4 s])
      from getTile_matched_nonempty [OF assms(1) i assms(3) this]
      have "\<not> tile_empty (tiles s3 t)" .
      with keep [OF this] show ?thesis by simp
    qed
    show ?thesis
      by (rule getTile_again [OF r4 assms(2)]) (rule ne)
  qed
qed

lemma failed_forever:
  assumes "in_range s" "int32 lod" "tile_failed (tiles s t)" "run cs s = Inr s6"
    and "fst (findBestMatch s (nat (lod + int (baseSplit s))) (nat u) (nat v)) = Some t"
  shows "getTile e lod u v s6 = Inr (TextureTile1 0, requested s6)"
proof -
  from run_frame [OF assms(4)] assms(3)
  have same: "tileTree s6 = tileTree s" "baseSplit s6 = baseSplit s"
    "nResolutionLevels s6 = nResolutionLevels s" and t: "tiles s6 t = tiles s t"
    by (simp_all add: tile_failed_def tile_empty_def)
  from same assms(1) have r6: "in_range s6"
    by (simp add: in_range_def)
  from same assms(5) obtain k where m: "findBestMatch s6 (nat (lod + int (baseSplit s6))) (nat u) (nat v) = (Some t, k)"
    by (cases "findBestMatch s (nat (lod + int (baseSplit s))) (nat u) (nat v)")
      (simp add: findBestMatch_tileTree [of s6 s])
  from t assms(3) have ne: "\<not> tile_empty (tiles (requested s6) t)"
    and tx: "tex (tiles (requested s6) t) = None"
    by (simp_all add: tile_failed_def tile_empty_def)
  from outside_or_inside [of lod "baseSplit s6" "nResolutionLevels s6" u v]
  show ?thesis
  proof
    assume "lod + int (baseSplit s6) < 0 \<or> lod + int (baseSplit s6) \<ge> int (nResolutionLevels s6) \<or>
          u < 0 \<or> u \<ge> 2 ^ (nat (lod + int (baseSplit s6)) + 1) \<or>
          v < 0 \<or> v \<ge> 2 ^ nat (lod + int (baseSplit s6))"
    from getTile_outside [OF r6 assms(2) this] show ?thesis .
  next
    assume "0 \<le> lod + int (baseSplit s6) \<and> lod + int (baseSplit s6) < int (nResolutionLevels s6) \<and>
      0 \<le> u \<and> 0 \<le> v \<and> valid_addr (nat (lod + int (baseSplit s6))) (nat u) (nat v)"
    then have i: "0 \<le> lod + int (baseSplit s6)" "lod + int (baseSplit s6) < int (nResolutionLevels s6)"
      "0 \<le> u" "0 \<le> v" "valid_addr (nat (lod + int (baseSplit s6))) (nat u) (nat v)"
      by simp_all
    from r6 i show ?thesis
    proof (cases rule: getTile_inside_cases [where e = e])
      case (no_match k')
      with m show ?thesis by simp
    next
      case (not_resident t' k' s')
      with m makeResident_nonempty [OF ne, of e k'] show ?thesis by simp
    next
      case (resident t' k' s' tx')
      with m makeResident_nonempty [OF ne, of e k'] have "s' = requested s6" "t' = t" by simp_all
      with resident(4) tx show ?thesis by simp
    qed
  qed
qed


subsection \<open>The catalog scan\<close>

lemma newTile_fields [simp]:
  "tilePath (snd (newTile s)) = tilePath s"
  "baseSplit (snd (newTile s)) = baseSplit s"
  "tilePrefix (snd (newTile s)) = tilePrefix s"
  "tileExt (snd (newTile s)) = tileExt s"
  "tileSize (snd (newTile s)) = tileSize s"
  "tileTree (snd (newTile s)) = tileTree s"
  "nResolutionLevels (snd (newTile s)) = nResolutionLevels s"
  by (simp_all add: newTile_def)

lemma tileAt_newTile [simp]: "tileAt (snd (newTile s)) = tileAt s"
  by (simp add: tileAt_def tileTree_at_def fun_eq_iff)

lemma addTileToTree_more_fields [simp]:
  "tileSize (addTileToTree t lod u v s) = tileSize s"
  by (simp add: addTileToTree_def tileTree_set_def Let_def)

lemma scanEntry_eq:
  "scanEntry pattern maxLevel name s =
     (case entry_addr pattern maxLevel name of
        None \<Rightarrow> s
      | Some (u, v) \<Rightarrow> addTileToTree (nextTile s) maxLevel u v (snd (newTile s)))"
proof -
  have "(u < push_bit maxLevel 2 \<and> v < push_bit maxLevel 1) = valid_addr maxLevel (nat u) (nat v)"
    if "0 \<le> u" "0 \<le> v" for u v :: int
    using that by (simp add: valid_addr_def push_bit_eq_mult nat_less_iff)
  then show ?thesis
    by (auto simp add: scanEntry_def entry_addr_def Let_def newTile_def split: list.splits)
qed



lemma scanEntry_fields [simp]:
  "tilePath (scanEntry pattern maxLevel name s) = tilePath s"
  "baseSplit (scanEntry pattern maxLevel name s) = baseSplit s"
  "tilePrefix (scanEntry pattern maxLevel name s) = tilePrefix s"
  "tileExt (scanEntry pattern maxLevel name s) = tileExt s"
  "tileSize (scanEntry pattern maxLevel name s) = tileSize s"
  "nResolutionLevels (scanEntry pattern maxLevel name s) = nResolutionLevels s"
  by (simp_all add: scanEntry_eq split: option.splits)


lemma scanDir_simps [simp]:
  "scanDir pattern maxLevel [] s = s"
  "scanDir pattern maxLevel (name # names) s = scanDir pattern maxLevel names (scanEntry pattern maxLevel name s)"
  by (simp_all add: scanDir_def)

lemma scanDir_fields [simp]:
  "tilePath (scanDir pattern maxLevel names s) = tilePath s"
  "baseSplit (scanDir pattern maxLevel names s) = baseSplit s"
  "tilePrefix (scanDir pattern maxLevel names s) = tilePrefix s"
  "tileExt (scanDir pattern maxLevel names s) = tileExt s"
  "tileSize (scanDir pattern maxLevel names s) = tileSize s"
  "nResolutionLevels (scanDir pattern maxLevel names s) = nResolutionLevels s"
  by (induction names arbitrary: s; simp)+









subsection \<open>Depths\<close>

lemma tiles_at_depth_newNode [simp]: "tiles_at_depth d newNode = []"
  by (cases d) (simp_all add: newNode_def)








lemma tileTree_at_newTile [simp]: "tileTree_at (snd (newTile s)) = tileTree_at s"
  by (simp add: tileTree_at_def fun_eq_iff)




subsection \<open>File names of the conventional form are parsed\<close>










subsection \<open>The scan as a whole and the constructor\<close>


lemma tileAt_nResolutionLevels [simp]:
  "tileAt (s\<lparr>nResolutionLevels := x\<rparr>) = tileAt s"
  "tileTree_at (s\<lparr>nResolutionLevels := x\<rparr>) = tileTree_at s"
  by (simp_all add: tileAt_def tileTree_at_def fun_eq_iff)




lemma init_fields [simp]:
  "tilePath (VirtualTexture_init p B T prefix type) = p"
  "baseSplit (VirtualTexture_init p B T prefix type) = B"
  "tilePrefix (VirtualTexture_init p B T prefix type) = prefix"
  "tileExt (VirtualTexture_init p B T prefix type) = ''.'' @ type"
  "tileSize (VirtualTexture_init p B T prefix type) = T"
  by (simp_all add: VirtualTexture_init_def)

lemma tileAt_init [simp]: "tileAt (VirtualTexture_init p B T prefix type) lod u v = None"
  by (simp add: tileAt_def VirtualTexture_init_def tileTree_at_def)

lemma tiles_at_depth_init [simp]:
  "tiles_at_depth d (tileTree_at (VirtualTexture_init p B T prefix type) r) = []"
  by (simp add: VirtualTexture_init_def tileTree_at_def)


lemma sscanf_Nil [simp]: "sscanf name [] = []"
  by simp



subsection \<open>Powers of two\<close>




subsection \<open>The factory\<close>





subsection \<open>Evaluating the examples\<close>

text \<open>The definitions that the simplifier unfolds to evaluate the example inputs.\<close>

lemmas eval_defs = 
  scan_int_def isspace_def isdigit_def dec_val_def digit_val_def Let_def
  fmt_d.simps digit_char_def path_append_def is_relative_def u32_def isPow2_def
  child_index_def addTileToTree_def addTile_loop.simps newTile_def newNode_def
  tileTree_at_def tileTree_set_def scanEntry_def populate_loop.simps populateTileTree_def
  VirtualTexture_new_def VirtualTexture_init_def MaxResolutionLevels_def level_dir_def scanDir_def
  tileAt_def addr_path_def tile_at_def upt_rec in_range_def valid_addr_def ancestor_def int32_def
  getTile_def findBestMatch_def getTile_loop.simps to_int32_def
  makeResident_def loadTileTexture_def requested_def addTiles_def

lemmas eval_defs2 = eval_defs beginUsage_def endUsage_def tile_empty_def tile_loaded_def tile_failed_def


lemmas eval_defs3 = eval_defs2 getLODCount_def entry_addr_def scan_pattern_def



subsection \<open>Claim C1\<close>

text \<open>
  C1. In a state within \<open>in_range\<close>, a request \<open>getTile lod u v\<close> with in-range coordinates, whose exact address
  \<open>(a, u, v)\<close>, \<open>a = lod + baseSplit\<close>, carries no tile while the ancestor at level
  \<open>k < a\<close> does and no level between them does, returns the tile \<open>t\<close> of that deepest
  ancestor: the call returns, and once \<open>t\<close> is resident (its texture \<open>tx\<close> is present
  after the residency step) the descriptor names \<open>tx\<close> and has the extents
  \<open>texDU = texDV = 1 / 2 ^ (a - k)\<close> and the origin
  \<open>texU = (u mod 2 ^ (a - k)) * texDU\<close>, \<open>texV = (v mod 2 ^ (a - k)) * texDV\<close>; when the
  load failed, the descriptor is the sentinel.
\<close>

theorem getTile_deepest_ancestor:
  assumes "in_range s"
    and "a = nat (lod + int (baseSplit s))"
    and "0 \<le> lod + int (baseSplit s)" "lod + int (baseSplit s) < int (nResolutionLevels s)"
    and "0 \<le> u" "0 \<le> v" "valid_addr a (nat u) (nat v)"
    and "tileAt s a (nat u) (nat v) = None"
    and "k < a" "tileAt s k (ancestor a k (nat u)) (ancestor a k (nat v)) = Some t"
    and "\<forall>j. k < j \<and> j < a \<longrightarrow> tileAt s j (ancestor a j (nat u)) (ancestor a j (nat v)) = None"
  shows "\<exists>d s'. getTile e lod u v s = Inr (d, s') \<and>
           (case tex (tiles s' t) of
              None \<Rightarrow> d = TextureTile1 0
            | Some tx \<Rightarrow>
                d = TextureTile5 (getName e tx)
                      (real (nat u mod 2 ^ (a - k)) * (1 / 2 ^ (a - k)))
                      (real (nat v mod 2 ^ (a - k)) * (1 / 2 ^ (a - k)))
                      (1 / 2 ^ (a - k)) (1 / 2 ^ (a - k)))"
proof -
  let ?a = "nat (lod + int (baseSplit s))"
  note a = assms(2)
  have "tileAt s j (ancestor ?a j (nat u)) (ancestor ?a j (nat v)) = None" if "k < j \<and> j \<le> ?a" for j
  proof (cases "j = ?a")
    case True
    with assms(8) show ?thesis by (simp add: ancestor_def a)
  next
    case False
    with that assms(11) show ?thesis by (simp add: a)
  qed
  with assms(9,10) have m: "findBestMatch s ?a (nat u) (nat v) = (Some t, k)"
    by (intro findBestMatch_deepest) (simp_all add: a)
  from assms(1) have L: "nResolutionLevels s \<le> 24"
    by (simp add: in_range_def)
  from assms(1) have "in_range (requested s)"
    by (simp add: in_range_def requested_def)
  moreover from assms(2,4,9) have "k < nResolutionLevels (requested s)"
    by (simp add: requested_def)
  ultimately obtain s' where
    r: "makeResident e t k (ancestor ?a k (nat u)) (ancestor ?a k (nat v)) (requested s) = Inr s'"
    using makeResident_total by blast
  have v: "valid_addr ?a (nat u) (nat v)"
    using assms(7) by (simp add: a)
  show ?thesis
    unfolding a getTile_inside [OF assms(3,4) L assms(5,6) v m, of e] option.case r sum.case
    by (cases "tex (tiles s' t)") simp_all
qed

theorem getTile_deepest_ancestor_witness:
  "in_range sA \<and> tileAt sA 4 10 4 = None \<and> tileAt sA 3 5 2 = Some 0 \<and>
   (\<exists>d s'. getTile envA 4 10 4 sA = Inr (d, s') \<and>
      (case tex (tiles s' 0) of
         None \<Rightarrow> d = TextureTile1 0
       | Some tx \<Rightarrow> d = TextureTile5 7 0 0 (1 / 2) (1 / 2)))"
proof -
  have h: "in_range sA" "4 = nat (4 + int (baseSplit sA))" "0 \<le> 4 + int (baseSplit sA)"
    "4 + int (baseSplit sA) < int (nResolutionLevels sA)" "valid_addr 4 (nat 10) (nat 4)"
    "tileAt sA 4 (nat 10) (nat 4) = None"
    "tileAt sA 3 (ancestor 4 3 (nat 10)) (ancestor 4 3 (nat 4)) = Some 0"
    by (simp_all add: sA_def envA_def eval_defs)
  have n: "\<forall>j. 3 < j \<and> j < (4::nat) \<longrightarrow>
             tileAt sA j (ancestor 4 j (nat 10)) (ancestor 4 j (nat 4)) = None"
    by auto
  from getTile_deepest_ancestor [OF h(1-4) _ _ h(5,6) _ h(7) n, of envA] h(1,6,7)
  show ?thesis
    by (simp add: envA_def ancestor_def cong: option.case_cong)
qed

subsection \<open>Claim C2\<close>




subsection \<open>Claim C3\<close>

text \<open>
  C3 does not hold of the code: \<open>loadTileTexture\<close> shifts the level right by the base
  split (\<^verbatim>\<open>lod >>= baseSplit\<close>, line 199) where the scan added it (line 258). With base
  split 1, the tile discovered in \<^verbatim>\<open>root/level2\<close> is attached at level 3, matched there
  by the request for LOD 2, and then loaded from \<^verbatim>\<open>root/level1\<close>; the load fails and the
  tile stays failed.
\<close>


theorem load_path_level_failing_input:
  "baseSplit sG = 1 \<and> level_dir sG 2 = ''root/level2'' \<and>
   directory_iterator envG (level_dir sG 2) = [''tx_0_0.dds''] \<and>
   tileAt sG (2 + baseSplit sG) 0 0 = Some 0 \<and>
   findBestMatch sG (2 + baseSplit sG) 0 0 = (Some 0, 3) \<and>
   loadLog (snd (projr (getTile envG 2 0 0 sG))) = [''root/level1/tx_0_0.dds''] \<and>
   fst (projr (getTile envG 2 0 0 sG)) = TextureTile1 0 \<and>
   tile_failed (tiles (snd (projr (getTile envG 2 0 0 sG))) 0)"
  by (simp add: sG_def envG_def eval_defs3 drop_bit_eq_div numeral_2_eq_2 [symmetric])

subsection \<open>Claim C4\<close>

text \<open>
  C4. A tile \<open>t\<close> inserted at a valid address \<open>(level, u, v)\<close> that carried no tile is,
  whatever is inserted at valid addresses afterwards, what the best-match walk for that
  address returns, with the matched level equal to \<open>level\<close>. A request for the address
  then returns, and once \<open>t\<close> is resident its descriptor names the texture of \<open>t\<close> with
  the full sub-rectangle 0, 0, 1, 1.
\<close>

theorem inserted_tile_exact_match:
  assumes "valid_addr level u v" "tileAt s level u v = None"
    and "\<forall>(t', l', u', v') \<in> set later. valid_addr l' u' v'"
    and "s' = addTiles later (addTileToTree t level u v s)"
  shows "findBestMatch s' level u v = (Some t, level) \<and>
         (in_range s' \<and> level < nResolutionLevels s' \<and> int level = lod + int (baseSplit s') \<longrightarrow>
          (\<exists>d s''. getTile e lod (int u) (int v) s' = Inr (d, s'') \<and>
             (case tex (tiles s'' t) of
                None \<Rightarrow> d = TextureTile1 0
              | Some tx \<Rightarrow> d = TextureTile5 (getName e tx) 0 0 1 1)))"
proof -
  from assms(1,2) have "tileAt (addTileToTree t level u v s) level u v = Some t"
    by (simp add: tileAt_addTileToTree)
  with assms(1,3,4) have t: "tileAt s' level u v = Some t"
    by (simp add: tileAt_addTiles_keeps)
  then have m: "findBestMatch s' level u v = (Some t, level)"
    by (rule findBestMatch_exact)
  have "\<exists>d s''. getTile e lod (int u) (int v) s' = Inr (d, s'') \<and>
             (case tex (tiles s'' t) of
                None \<Rightarrow> d = TextureTile1 0
              | Some tx \<Rightarrow> d = TextureTile5 (getName e tx) 0 0 1 1)"
    if r: "in_range s'" and l: "level < nResolutionLevels s'" "int level = lod + int (baseSplit s')"
  proof -
    from l have a: "nat (lod + int (baseSplit s')) = level"
      by simp
    from l assms(1) have i: "0 \<le> lod + int (baseSplit s')"
      "lod + int (baseSplit s') < int (nResolutionLevels s')" "0 \<le> int u" "0 \<le> int v"
      "valid_addr (nat (lod + int (baseSplit s'))) (nat (int u)) (nat (int v))"
      by (simp_all flip: l(2))
    from r i show ?thesis
    proof (cases rule: getTile_inside_cases [where e = e])
      case (no_match k)
      with m a show ?thesis by simp
    next
      case (not_resident t' k s'')
      with m a show ?thesis by simp
    next
      case (resident t' k s'' tx)
      with m a show ?thesis by simp
    qed
  qed
  with m show ?thesis by blast
qed

theorem inserted_tile_exact_match_witness:
  "valid_addr 3 5 2 \<and> tileAt sE 3 5 2 = None \<and> valid_addr 4 10 4 \<and>
   findBestMatch (addTiles [(1, 4, 10, 4)] (addTileToTree 0 3 5 2 sE)) 3 5 2 = (Some 0, 3) \<and>
   (\<exists>d s''. getTile envA 3 5 2 (addTiles [(1, 4, 10, 4)] (addTileToTree 0 3 5 2 sE)) = Inr (d, s'') \<and>
      (case tex (tiles s'' 0) of
         None \<Rightarrow> d = TextureTile1 0
       | Some tx \<Rightarrow> d = TextureTile5 7 0 0 1 1))"
proof -
  let ?s = "addTiles [(1, 4, 10, 4)] (addTileToTree 0 3 5 2 sE)"
  have h: "valid_addr 3 5 2" "tileAt sE 3 5 2 = None"
    "\<forall>(t', l', u', v') \<in> set [(1, 4, 10, 4)]. valid_addr l' u' v'"
    by (simp_all add: sE_def eval_defs)
  have r: "in_range ?s \<and> 3 < nResolutionLevels ?s \<and> int 3 = 3 + int (baseSplit ?s)"
    by (simp add: sE_def eval_defs)
  from inserted_tile_exact_match [OF h refl, of 0 3 envA] r h show ?thesis
    by (simp add: envA_def cong: option.case_cong)
qed

subsection \<open>Claim C5\<close>

text \<open>
  C5. In a state within \<open>in_range\<close>, \<open>getTile\<close> is total: for every \<^verbatim>\<open>int\<close> \<open>lod\<close> and
  all integers \<open>u\<close>, \<open>v\<close> the call returns a descriptor and raises nothing; and whenever the absolute level
  \<open>lod + baseSplit\<close> is negative or not below the number of levels, or \<open>u\<close> is outside
  \<open>0 ..< 2 ^ (lod + baseSplit + 1)\<close>, or \<open>v\<close> is outside \<open>0 ..< 2 ^ (lod + baseSplit)\<close>, the
  descriptor is the "no texture" sentinel.
\<close>

theorem getTile_total_sentinel_outside:
  assumes "in_range s" "int32 lod"
  shows "(\<exists>d s'. getTile e lod u v s = Inr (d, s')) \<and>
         (lod + int (baseSplit s) < 0 \<or> lod + int (baseSplit s) \<ge> int (nResolutionLevels s) \<or>
          u < 0 \<or> u \<ge> 2 ^ (nat (lod + int (baseSplit s)) + 1) \<or>
          v < 0 \<or> v \<ge> 2 ^ nat (lod + int (baseSplit s))
          \<longrightarrow> getTile e lod u v s = Inr (TextureTile1 0, requested s))"
proof
  from outside_or_inside [of lod "baseSplit s" "nResolutionLevels s" u v]
  show "\<exists>d s'. getTile e lod u v s = Inr (d, s')"
  proof
    assume "lod + int (baseSplit s) < 0 \<or> lod + int (baseSplit s) \<ge> int (nResolutionLevels s) \<or>
          u < 0 \<or> u \<ge> 2 ^ (nat (lod + int (baseSplit s)) + 1) \<or>
          v < 0 \<or> v \<ge> 2 ^ nat (lod + int (baseSplit s))"
    from getTile_outside [OF assms this] show ?thesis by blast
  next
    assume "0 \<le> lod + int (baseSplit s) \<and> lod + int (baseSplit s) < int (nResolutionLevels s) \<and>
      0 \<le> u \<and> 0 \<le> v \<and> valid_addr (nat (lod + int (baseSplit s))) (nat u) (nat v)"
    then show ?thesis
      using assms(1) by (elim conjE getTile_inside_cases [where e = e]) blast+
  qed
next
  show "lod + int (baseSplit s) < 0 \<or> lod + int (baseSplit s) \<ge> int (nResolutionLevels s) \<or>
          u < 0 \<or> u \<ge> 2 ^ (nat (lod + int (baseSplit s)) + 1) \<or>
          v < 0 \<or> v \<ge> 2 ^ nat (lod + int (baseSplit s))
          \<longrightarrow> getTile e lod u v s = Inr (TextureTile1 0, requested s)"
    using getTile_outside [OF assms] by blast
qed

theorem getTile_total_sentinel_outside_witness:
  "in_range sA \<and> int32 0 \<and> (\<exists>d s'. getTile envA 0 (- 1) 0 sA = Inr (d, s')) \<and>
   getTile envA 0 (- 1) 0 sA = Inr (TextureTile1 0, requested sA)"
proof -
  have h: "in_range sA" "int32 0"
    by (simp_all add: sA_def envA_def eval_defs)
  from getTile_total_sentinel_outside [OF h, of envA "- 1" 0] h show ?thesis
    by simp
qed

subsection \<open>Claim C6\<close>

text \<open>
  C6. A tile leaves the empty state at most once. \<open>makeResident\<close> decodes nothing for a
  tile that is loaded or failed (the state is returned unchanged); for an empty tile it
  makes one decode attempt and leaves the tile loaded or failed. No sequence of calls
  changes a tile that is not empty. So a request repeated after a first request of the
  same address, whatever calls lie between them, makes no decode attempt and changes no
  tile, and a request that matches a failed tile returns the sentinel after any sequence
  of calls.
\<close>

theorem tile_loaded_or_failed_once:
  "(\<not> tile_empty (tiles s t) \<longrightarrow> makeResident e t k a b s = Inr s) \<and>
   (tile_empty (tiles s t) \<and> makeResident e t k a b s = Inr s1 \<longrightarrow>
      (tile_loaded (tiles s1 t) \<or> tile_failed (tiles s1 t)) \<and>
      length (loadLog s1) = length (loadLog s) + 1) \<and>
   (\<not> tile_empty (tiles s t) \<and> run cs s = Inr s2 \<longrightarrow> tiles s2 t = tiles s t) \<and>
   (in_range s \<and> int32 lod \<and> getTile e lod u v s = Inr (d, s3) \<and> run cs s3 = Inr s4 \<longrightarrow>
      (\<exists>d' s5. getTile e' lod u v s4 = Inr (d', s5) \<and> loadLog s5 = loadLog s4 \<and>
         tiles s5 = tiles s4)) \<and>
   (in_range s \<and> int32 lod \<and> tile_failed (tiles s t) \<and> run cs s = Inr s6 \<and>
    fst (findBestMatch s (nat (lod + int (baseSplit s))) (nat u) (nat v)) = Some t \<longrightarrow>
      getTile e' lod u v s6 = Inr (TextureTile1 0, requested s6))"
proof (intro conjI impI)
  assume "\<not> tile_empty (tiles s t)"
  then show "makeResident e t k a b s = Inr s"
    by (rule makeResident_nonempty)
next
  assume "tile_empty (tiles s t) \<and> makeResident e t k a b s = Inr s1"
  with makeResident_tile [of e t k a b s s1]
  show "tile_loaded (tiles s1 t) \<or> tile_failed (tiles s1 t)"
    and "length (loadLog s1) = length (loadLog s) + 1"
    by simp_all
next
  assume "\<not> tile_empty (tiles s t) \<and> run cs s = Inr s2"
  with run_frame [of cs s s2] show "tiles s2 t = tiles s t"
    by simp
next
  assume "in_range s \<and> int32 lod \<and> getTile e lod u v s = Inr (d, s3) \<and> run cs s3 = Inr s4"
  then obtain d' where "getTile e' lod u v s4 = Inr (d', requested s4)"
    using repeated_request [of s lod e u v d s3 cs s4 e'] by blast
  then show "\<exists>d' s5. getTile e' lod u v s4 = Inr (d', s5) \<and> loadLog s5 = loadLog s4 \<and>
      tiles s5 = tiles s4"
    by simp
next
  assume "in_range s \<and> int32 lod \<and> tile_failed (tiles s t) \<and> run cs s = Inr s6 \<and>
    fst (findBestMatch s (nat (lod + int (baseSplit s))) (nat u) (nat v)) = Some t"
  then show "getTile e' lod u v s6 = Inr (TextureTile1 0, requested s6)"
    using failed_forever [of s lod t cs s6 u v e'] by blast
qed

theorem tile_loaded_or_failed_once_witness:
  "tile_empty (tiles sA 0) \<and>
   (\<exists>s1. makeResident envF 0 3 5 2 sA = Inr s1 \<and> tile_failed (tiles s1 0) \<and>
      length (loadLog s1) = length (loadLog sA) + 1) \<and>
   in_range sA \<and> int32 4 \<and> getTile envF 4 10 4 sA = Inr (TextureTile1 0, sF) \<and>
   (\<exists>d' s5. getTile envA 4 10 4 sF = Inr (d', s5) \<and> loadLog s5 = loadLog sF \<and> tiles s5 = tiles sF) \<and>
   tile_failed (tiles sF 0) \<and> makeResident envA 0 3 5 2 sF = Inr sF \<and>
   (\<exists>s2. run [GetTile envA 4 10 4, BeginUsage] sF = Inr s2 \<and> tiles s2 0 = tiles sF 0 \<and>
      getTile envA 4 10 4 s2 = Inr (TextureTile1 0, requested s2))"
proof -
  let ?s1 = "projr (makeResident envF 0 3 5 2 sA)"
  let ?cs = "[GetTile envA 4 10 4, BeginUsage]"
  let ?s2 = "projr (run ?cs sF)"
  have a: "tile_empty (tiles sA 0)" "makeResident envF 0 3 5 2 sA = Inr ?s1"
    "in_range sA" "int32 4" "getTile envF 4 10 4 sA = Inr (TextureTile1 0, sF)"
    by (simp_all add: sF_def sA_def envF_def envA_def eval_defs2)
  have r0: "run [] sF = Inr sF"
    by simp
  have f: "tile_failed (tiles sF 0)" "in_range sF"
    "fst (findBestMatch sF (nat (4 + int (baseSplit sF))) (nat 10) (nat 4)) = Some 0"
    by (simp_all add: sF_def sA_def envF_def envA_def eval_defs2)
  have r: "run ?cs sF = Inr ?s2"
    by (simp add: sF_def sA_def envF_def envA_def eval_defs2)
  from f(1) have ne: "\<not> tile_empty (tiles sF 0)"
    by (simp add: tile_failed_def tile_empty_def)
  from tile_loaded_or_failed_once
    [where s = sA and t = 0 and e = envF and k = 3 and a = 5 and b = 2 and ?s1.0 = ?s1
       and cs = "[]" and lod = 4 and u = 10 and v = 4 and d = "TextureTile1 0" and ?s3.0 = sF
       and ?s4.0 = sF and e' = envA]
    a r0
  have 1: "tile_loaded (tiles ?s1 0) \<or> tile_failed (tiles ?s1 0)"
    "length (loadLog ?s1) = length (loadLog sA) + 1"
    "\<exists>d' s5. getTile envA 4 10 4 sF = Inr (d', s5) \<and> loadLog s5 = loadLog sF \<and> tiles s5 = tiles sF"
    by simp_all
  have nl: "\<not> tile_loaded (tiles ?s1 0)"
    by (simp add: sA_def envF_def envA_def eval_defs2)
  from tile_loaded_or_failed_once
    [where s = sF and t = 0 and e = envA and k = 3 and a = 5 and b = 2
       and cs = ?cs and ?s2.0 = ?s2 and lod = 4 and u = 10 and v = 4 and e' = envA
       and ?s6.0 = ?s2]
    ne f r a(4)
  have 2: "makeResident envA 0 3 5 2 sF = Inr sF" "tiles ?s2 0 = tiles sF 0"
    "getTile envA 4 10 4 ?s2 = Inr (TextureTile1 0, requested ?s2)"
    by simp_all
  from a 1 nl f(1) 2 r show ?thesis
    by auto
qed

subsection \<open>Claim C7\<close>




subsection \<open>Claim C8\<close>




subsection \<open>Claim C9\<close>



subsection \<open>Claim C10\<close>

text \<open>
  C10. In a state within \<open>in_range\<close>, every descriptor other than the sentinel that
  \<open>getTile lod u v\<close> returns is a
  square fraction of the matched tile inside the unit square: with \<open>k\<close> the matched
  level and \<open>a = lod + baseSplit\<close>, \<open>k \<le> a\<close>, \<open>texDU = texDV = 1 / 2 ^ (a - k)\<close>,
  \<open>0 \<le> texU\<close>, \<open>0 \<le> texV\<close>, \<open>texU + texDU \<le> 1\<close> and \<open>texV + texDV \<le> 1\<close>.
\<close>

theorem getTile_subrect_within_tile:
  assumes "in_range s" "int32 lod"
    and "getTile e lod u v s = Inr (TextureTile5 name texU texV texDU texDV, s')"
    and "a = nat (lod + int (baseSplit s))"
    and "k = snd (findBestMatch s a (nat u) (nat v))"
  shows "k \<le> a \<and> texDU = 1 / 2 ^ (a - k) \<and> texDV = 1 / 2 ^ (a - k) \<and>
         0 \<le> texU \<and> 0 \<le> texV \<and> texU + texDU \<le> 1 \<and> texV + texDV \<le> 1"
proof -
  from outside_or_inside [of lod "baseSplit s" "nResolutionLevels s" u v]
  show ?thesis
  proof
    assume "lod + int (baseSplit s) < 0 \<or> lod + int (baseSplit s) \<ge> int (nResolutionLevels s) \<or>
          u < 0 \<or> u \<ge> 2 ^ (nat (lod + int (baseSplit s)) + 1) \<or>
          v < 0 \<or> v \<ge> 2 ^ nat (lod + int (baseSplit s))"
    from getTile_outside [OF assms(1,2) this, of e] assms(3) show ?thesis by simp
  next
    assume "0 \<le> lod + int (baseSplit s) \<and> lod + int (baseSplit s) < int (nResolutionLevels s) \<and>
      0 \<le> u \<and> 0 \<le> v \<and> valid_addr (nat (lod + int (baseSplit s))) (nat u) (nat v)"
    then have i: "0 \<le> lod + int (baseSplit s)" "lod + int (baseSplit s) < int (nResolutionLevels s)"
      "0 \<le> u" "0 \<le> v" "valid_addr (nat (lod + int (baseSplit s))) (nat u) (nat v)"
      by simp_all
    from assms(1) i show ?thesis
    proof (cases rule: getTile_inside_cases [where e = e])
      case (no_match k')
      with assms(3) show ?thesis by simp
    next
      case (not_resident t k' s'')
      with assms(3) show ?thesis by simp
    next
      case (resident t k' s'' tx)
      from resident(1) assms(4,5) have k: "k' = k" by simp
      from resident(5) assms(3) have
        "texU = real (nat u mod 2 ^ (a - k)) * (1 / 2 ^ (a - k))"
        "texV = real (nat v mod 2 ^ (a - k)) * (1 / 2 ^ (a - k))"
        "texDU = 1 / 2 ^ (a - k)" "texDV = 1 / 2 ^ (a - k)"
        by (simp_all add: k assms(4))
      with resident(2) k assms(4) subrect_bounds [of "nat u" "a - k"] subrect_bounds [of "nat v" "a - k"]
      show ?thesis by simp
    qed
  qed
qed

theorem getTile_subrect_within_tile_witness:
  "in_range sA \<and> int32 4 \<and> snd (findBestMatch sA 4 10 4) = 3 \<and>
   (\<exists>s'. getTile envA 4 10 4 sA = Inr (TextureTile5 7 0 0 (1 / 2) (1 / 2), s')) \<and>
   (3::nat) \<le> 4 \<and> (1 / 2 :: real) = 1 / 2 ^ (4 - 3) \<and> (0::real) + 1 / 2 \<le> 1"
proof -
  have h: "in_range sA" "int32 4" "4 = nat (4 + int (baseSplit sA))"
    "3 = snd (findBestMatch sA 4 (nat 10) (nat 4))"
    by (simp_all add: sA_def envA_def eval_defs)
  have g: "getTile envA 4 10 4 sA =
      Inr (TextureTile5 7 0 0 (1 / 2) (1 / 2), snd (projr (getTile envA 4 10 4 sA)))"
    by (simp add: sA_def envA_def eval_defs)
  from getTile_subrect_within_tile [OF h(1,2) g h(3,4)] h g show ?thesis
    by auto
qed

end
